theory Spec2Isabelle
  imports Complex_Main
begin

section \<open>JavaScript numbers\<close>

text \<open>
  Every number of the program is a JavaScript number. The model keeps the special values
  that decide control flow (\<open>NaN\<close>, \<open>Infinity\<close>, \<open>-Infinity\<close>) and takes a finite
  number as a real: arithmetic on finite values is exact, so rounding and overflow of the
  64-bit format are not part of the model, and zero carries no sign. The only operations of
  the program that leave the finite values from finite operands are then a division by
  zero and \<open>Math.pow\<close> at a base that is zero or negative.
\<close>

datatype jsnum = Fin real | PInf | NInf | NaN

instantiation jsnum :: "{plus, minus, uminus, times, inverse}"
begin

fun uminus_jsnum :: "jsnum \<Rightarrow> jsnum" where
  "uminus_jsnum (Fin a) = Fin (- a)"
| "uminus_jsnum PInf = NInf"
| "uminus_jsnum NInf = PInf"
| "uminus_jsnum NaN = NaN"

fun plus_jsnum :: "jsnum \<Rightarrow> jsnum \<Rightarrow> jsnum" where
  "plus_jsnum (Fin a) (Fin b) = Fin (a + b)"
| "plus_jsnum NaN _ = NaN"
| "plus_jsnum _ NaN = NaN"
| "plus_jsnum PInf NInf = NaN"
| "plus_jsnum NInf PInf = NaN"
| "plus_jsnum PInf _ = PInf"
| "plus_jsnum _ PInf = PInf"
| "plus_jsnum NInf _ = NInf"
| "plus_jsnum _ NInf = NInf"

definition minus_jsnum :: "jsnum \<Rightarrow> jsnum \<Rightarrow> jsnum" where
  "minus_jsnum a b = a + (- b)"

fun times_jsnum :: "jsnum \<Rightarrow> jsnum \<Rightarrow> jsnum" where
  "times_jsnum (Fin a) (Fin b) = Fin (a * b)"
| "times_jsnum NaN _ = NaN"
| "times_jsnum _ NaN = NaN"
| "times_jsnum (Fin a) PInf = (if a = 0 then NaN else if 0 < a then PInf else NInf)"
| "times_jsnum (Fin a) NInf = (if a = 0 then NaN else if 0 < a then NInf else PInf)"
| "times_jsnum PInf (Fin b) = (if b = 0 then NaN else if 0 < b then PInf else NInf)"
| "times_jsnum NInf (Fin b) = (if b = 0 then NaN else if 0 < b then NInf else PInf)"
| "times_jsnum PInf PInf = PInf"
| "times_jsnum PInf NInf = NInf"
| "times_jsnum NInf PInf = NInf"
| "times_jsnum NInf NInf = PInf"

text \<open>
  Division: a zero divisor gives \<open>NaN\<close> for a zero dividend and an infinity otherwise
  (the divisor is taken as \<open>+0\<close>: every divisor of the program is a sum of squares, a
  length or a count).
\<close>

fun divide_jsnum :: "jsnum \<Rightarrow> jsnum \<Rightarrow> jsnum" where
  "divide_jsnum (Fin a) (Fin b) =
     (if b = 0 then (if a = 0 then NaN else if 0 < a then PInf else NInf) else Fin (a / b))"
| "divide_jsnum NaN _ = NaN"
| "divide_jsnum _ NaN = NaN"
| "divide_jsnum (Fin a) PInf = Fin 0"
| "divide_jsnum (Fin a) NInf = Fin 0"
| "divide_jsnum PInf (Fin b) = (if 0 \<le> b then PInf else NInf)"
| "divide_jsnum NInf (Fin b) = (if 0 \<le> b then NInf else PInf)"
| "divide_jsnum PInf PInf = NaN"
| "divide_jsnum PInf NInf = NaN"
| "divide_jsnum NInf PInf = NaN"
| "divide_jsnum NInf NInf = NaN"

fun inverse_jsnum :: "jsnum \<Rightarrow> jsnum" where
  "inverse_jsnum (Fin a) = (if a = 0 then PInf else Fin (inverse a))"
| "inverse_jsnum PInf = Fin 0"
| "inverse_jsnum NInf = Fin 0"
| "inverse_jsnum NaN = NaN"

instance ..

end

text \<open>The comparisons \<open><\<close> and \<open><=\<close>: false as soon as an operand is \<open>NaN\<close>.\<close>

fun js_lt :: "jsnum \<Rightarrow> jsnum \<Rightarrow> bool" where
  "js_lt (Fin a) (Fin b) = (a < b)"
| "js_lt NaN _ = False"
| "js_lt _ NaN = False"
| "js_lt _ NInf = False"
| "js_lt PInf _ = False"
| "js_lt NInf _ = True"
| "js_lt _ PInf = True"

fun js_le :: "jsnum \<Rightarrow> jsnum \<Rightarrow> bool" where
  "js_le (Fin a) (Fin b) = (a \<le> b)"
| "js_le NaN _ = False"
| "js_le _ NaN = False"
| "js_le NInf _ = True"
| "js_le _ PInf = True"
| "js_le _ NInf = False"
| "js_le PInf _ = False"

text \<open>Truthiness of a number (\<open>||\<close>, \<open>!\<close>): zero and \<open>NaN\<close> are falsy.\<close>

fun js_truthy :: "jsnum \<Rightarrow> bool" where
  "js_truthy (Fin a) = (a \<noteq> 0)"
| "js_truthy NaN = False"
| "js_truthy _ = True"

definition js_or :: "jsnum \<Rightarrow> jsnum \<Rightarrow> jsnum" where
  "js_or a b = (if js_truthy a then a else b)"

text \<open>\<open>a ?? b\<close> on an optional property: the default only replaces a missing value.\<close>

definition js_nullish :: "jsnum option \<Rightarrow> jsnum \<Rightarrow> jsnum" where
  "js_nullish a b = (case a of None \<Rightarrow> b | Some v \<Rightarrow> v)"

text \<open>\<open>a || b\<close> on an optional property: a missing value is falsy.\<close>

definition js_or_opt :: "jsnum option \<Rightarrow> jsnum \<Rightarrow> jsnum" where
  "js_or_opt a b = (case a of None \<Rightarrow> b | Some v \<Rightarrow> js_or v b)"

subsection \<open>The functions of \<open>Math\<close> the program calls\<close>

fun js_sqrt :: "jsnum \<Rightarrow> jsnum" where
  "js_sqrt (Fin a) = (if a < 0 then NaN else Fin (sqrt a))"
| "js_sqrt PInf = PInf"
| "js_sqrt NInf = NaN"
| "js_sqrt NaN = NaN"

text \<open>\<open>Math.hypot\<close>: an infinite argument wins over \<open>NaN\<close>.\<close>

fun js_hypot :: "jsnum \<Rightarrow> jsnum \<Rightarrow> jsnum" where
  "js_hypot (Fin a) (Fin b) = Fin (sqrt (a * a + b * b))"
| "js_hypot PInf _ = PInf"
| "js_hypot NInf _ = PInf"
| "js_hypot _ PInf = PInf"
| "js_hypot _ NInf = PInf"
| "js_hypot NaN _ = NaN"
| "js_hypot _ NaN = NaN"

fun js_cos :: "jsnum \<Rightarrow> jsnum" where
  "js_cos (Fin a) = Fin (cos a)"
| "js_cos _ = NaN"

fun js_sin :: "jsnum \<Rightarrow> jsnum" where
  "js_sin (Fin a) = Fin (sin a)"
| "js_sin _ = NaN"

fun js_floor :: "jsnum \<Rightarrow> jsnum" where
  "js_floor (Fin a) = Fin (of_int \<lfloor>a\<rfloor>)"
| "js_floor v = v"

text \<open>\<open>Math.max\<close> and \<open>Math.min\<close> of two arguments: \<open>NaN\<close> as soon as one is.\<close>

fun js_max :: "jsnum \<Rightarrow> jsnum \<Rightarrow> jsnum" where
  "js_max NaN _ = NaN"
| "js_max _ NaN = NaN"
| "js_max a b = (if js_lt a b then b else a)"

fun js_min :: "jsnum \<Rightarrow> jsnum \<Rightarrow> jsnum" where
  "js_min NaN _ = NaN"
| "js_min _ NaN = NaN"
| "js_min a b = (if js_lt b a then b else a)"

text \<open>
  \<open>Math.pow\<close>: an exponent zero gives 1 for every base; a negative base has a power only
  at an integer exponent.
\<close>

definition is_odd_int :: "real \<Rightarrow> bool" where
  "is_odd_int y = (of_int \<lfloor>y\<rfloor> = y \<and> odd \<lfloor>y\<rfloor>)"

fun js_pow :: "jsnum \<Rightarrow> jsnum \<Rightarrow> jsnum" where
  "js_pow _ NaN = NaN"
| "js_pow b (Fin y) =
     (if y = 0 then Fin 1
      else (case b of
              NaN \<Rightarrow> NaN
            | PInf \<Rightarrow> (if 0 < y then PInf else Fin 0)
            | NInf \<Rightarrow> (if 0 < y then (if is_odd_int y then NInf else PInf) else Fin 0)
            | Fin x \<Rightarrow>
                (if x = 0 then (if 0 < y then Fin 0 else PInf)
                 else if 0 < x then Fin (x powr y)
                 else if of_int \<lfloor>y\<rfloor> = y then Fin (x powi \<lfloor>y\<rfloor>)
                 else NaN)))"
| "js_pow b PInf =
     (case b of
        NaN \<Rightarrow> NaN
      | Fin x \<Rightarrow> (if 1 < \<bar>x\<bar> then PInf else if \<bar>x\<bar> = 1 then NaN else Fin 0)
      | _ \<Rightarrow> PInf)"
| "js_pow b NInf =
     (case b of
        NaN \<Rightarrow> NaN
      | Fin x \<Rightarrow> (if 1 < \<bar>x\<bar> then Fin 0 else if \<bar>x\<bar> = 1 then NaN else PInf)
      | _ \<Rightarrow> Fin 0)"

section \<open>polygon.js: the regular polygon\<close>

text \<open>A point \<open>{x, y}\<close>.\<close>

record point =
  pt_x :: jsnum
  pt_y :: jsnum

text \<open>The fields of a \<open>Polygon\<close> object.\<close>

record Polygon =
  p_cx :: jsnum
  p_cy :: jsnum
  p_radius :: jsnum
  p_sides :: jsnum
  p_rotation :: jsnum
  p_vertices :: "point list"

text \<open>
  How a call can fail to return a value: a property read on \<open>undefined\<close> throws a
  \<open>TypeError\<close>, and a loop may never end.
\<close>

datatype abort = TypeError | NonTermination

definition twoPI :: jsnum where
  "twoPI = Fin pi * Fin 2"

text \<open>The body of the loop of \<open>updateVertices\<close>: the vertex pushed at index \<open>i\<close>.\<close>

definition vertexAt :: "Polygon \<Rightarrow> nat \<Rightarrow> point" where
  "vertexAt this i =
     (let ang = p_rotation this + (Fin (real i) / p_sides this) * twoPI;
          x = p_cx this + js_cos ang * p_radius this;
          y = p_cy this + js_sin ang * p_radius this
      in \<lparr>pt_x = x, pt_y = y\<rparr>)"

text \<open>
  \<open>for(let i=0;i<this.sides;i++) verts.push(...)\<close>. With \<open>this.sides\<close> infinite the
  loop never ends: the result is then \<open>None\<close>.
\<close>

partial_function (option) updateVertices_loop ::
  "Polygon \<Rightarrow> nat \<Rightarrow> point list \<Rightarrow> point list option" where
  "updateVertices_loop this i verts =
     (if js_lt (Fin (real i)) (p_sides this)
      then updateVertices_loop this (Suc i) (verts @ [vertexAt this i])
      else Some verts)"

definition updateVertices :: "Polygon \<Rightarrow> Polygon option" where
  "updateVertices this =
     (case updateVertices_loop this 0 [] of
        None \<Rightarrow> None
      | Some verts \<Rightarrow> Some (this\<lparr>p_vertices := verts\<rparr>))"

text \<open>The constructor, called with its five arguments at every call site.\<close>

definition Polygon_new :: "jsnum \<Rightarrow> jsnum \<Rightarrow> jsnum \<Rightarrow> jsnum \<Rightarrow> jsnum \<Rightarrow> Polygon option" where
  "Polygon_new cx cy radius sides rotation =
     updateVertices
       \<lparr>p_cx = cx, p_cy = cy, p_radius = radius,
        p_sides = js_max (Fin 3) (js_floor sides),
        p_rotation = rotation, p_vertices = []\<rparr>"

definition setSides :: "Polygon \<Rightarrow> jsnum \<Rightarrow> Polygon option" where
  "setSides this n = updateVertices (this\<lparr>p_sides := js_max (Fin 3) (js_floor n)\<rparr>)"

definition setRadius :: "Polygon \<Rightarrow> jsnum \<Rightarrow> Polygon option" where
  "setRadius this r = updateVertices (this\<lparr>p_radius := r\<rparr>)"

definition setCenter :: "Polygon \<Rightarrow> jsnum \<Rightarrow> jsnum \<Rightarrow> Polygon option" where
  "setCenter this x y = updateVertices (this\<lparr>p_cx := x, p_cy := y\<rparr>)"

text \<open>The static method \<open>closestPointOnSegment\<close>.\<close>

definition closestPointOnSegment ::
  "jsnum \<Rightarrow> jsnum \<Rightarrow> jsnum \<Rightarrow> jsnum \<Rightarrow> jsnum \<Rightarrow> jsnum \<Rightarrow> point" where
  "closestPointOnSegment px py ax ay bx by =
     (let vx = bx - ax; vy = by - ay;
          wx = px - ax; wy = py - ay;
          c1 = vx * wx + vy * wy;
          c2 = vx * vx + vy * vy;
          t = c1 / c2;
          t = (if js_lt t (Fin 0) then Fin 0 else t);
          t = (if js_lt (Fin 1) t then Fin 1 else t)
      in \<lparr>pt_x = ax + vx * t, pt_y = ay + vy * t\<rparr>)"

text \<open>
  The result of \<open>collideCircle\<close>: \<open>{hit: false}\<close>, or a hit with its edge index,
  contact point, normal and penetration.
\<close>

datatype CollisionResult =
  NoHit
| Hit (edgeIndex: nat) (pt: point) (normal: point) (penetration: jsnum)

text \<open>
  The local \<open>best\<close>: \<open>{dist: Infinity}\<close> before an edge is taken, then
  \<open>{dist, cp, i, a, b}\<close>.
\<close>

datatype Best =
  BestInit
| BestEdge jsnum point nat point point

fun best_dist :: "Best \<Rightarrow> jsnum" where
  "best_dist BestInit = PInf"
| "best_dist (BestEdge d cp i a b) = d"

text \<open>One round of the loop over the edges, at index \<open>i\<close>.\<close>

definition collide_edge :: "point list \<Rightarrow> jsnum \<Rightarrow> jsnum \<Rightarrow> nat \<Rightarrow> Best \<Rightarrow> Best" where
  "collide_edge vertices cx cy i best =
     (let n = length vertices;
          a = vertices ! i;
          b = vertices ! ((i + 1) mod n);
          cp = closestPointOnSegment cx cy (pt_x a) (pt_y a) (pt_x b) (pt_y b);
          dx = cx - pt_x cp; dy = cy - pt_y cp;
          dist = js_sqrt (dx * dx + dy * dy)
      in if js_lt dist (best_dist best) then BestEdge dist cp i a b else best)"

text \<open>
  \<open>collideCircle\<close>, a method: it returns its result and the receiver as the call leaves
  it. With no edge taken and \<open>Infinity <= r + 0.0001\<close>, the read of \<open>best.a.x\<close> throws.
\<close>

definition collideCircle ::
  "Polygon \<Rightarrow> jsnum \<Rightarrow> jsnum \<Rightarrow> jsnum \<Rightarrow> abort + (CollisionResult \<times> Polygon)" where
  "collideCircle this cx cy r =
     (let n = length (p_vertices this);
          best = fold (collide_edge (p_vertices this) cx cy) [0..<n] BestInit
      in if js_le (best_dist best) (r + Fin 0.0001)
         then (case best of
                 BestInit \<Rightarrow> Inl TypeError
               | BestEdge d cp i a b \<Rightarrow>
                   (let ax = pt_x a; ay = pt_y a;
                        bx = pt_x b; by = pt_y b;
                        ex = bx - ax; ey = by - ay;
                        nx = - ey; ny = ex;
                        nl = js_or (js_hypot nx ny) (Fin 1);
                        nx = nx / nl; ny = ny / nl;
                        tx = pt_x cp - p_cx this; ty = pt_y cp - p_cy this;
                        flip = js_lt (tx * nx + ty * ny) (Fin 0);
                        nx = (if flip then - nx else nx);
                        ny = (if flip then - ny else ny)
                    in Inr (Hit i cp \<lparr>pt_x = nx, pt_y = ny\<rparr> (r - d), this)))
         else Inr (NoHit, this))"

section \<open>ball.js: the body and its inner level\<close>

text \<open>The object \<open>inner.ball\<close>.\<close>

record InnerBall =
  ib_x :: jsnum
  ib_y :: jsnum
  ib_vx :: jsnum
  ib_vy :: jsnum
  ib_radius :: jsnum
  ib_gravity :: jsnum

text \<open>The object \<open>inner.extra\<close> and its \<open>ball\<close>.\<close>

record ExtraBall =
  eb_x :: jsnum
  eb_y :: jsnum
  eb_vx :: jsnum
  eb_vy :: jsnum
  eb_radius :: jsnum

record Extra =
  ex_polygonSides :: jsnum
  ex_ball :: ExtraBall

record Inner =
  in_cx :: jsnum
  in_cy :: jsnum
  in_radius :: jsnum
  in_polygonSides :: jsnum
  in_ball :: InnerBall
  in_extra :: "Extra option"

text \<open>The fields of a \<open>BallSim\<close> (its colour, read only when drawing, is left out).\<close>

record BallSim =
  b_x :: jsnum
  b_y :: jsnum
  b_vx :: jsnum
  b_vy :: jsnum
  b_radius :: jsnum
  b_gravity :: jsnum
  b_friction :: jsnum
  b_nestedDepth :: jsnum
  b_maxNestedDepth :: jsnum
  b_inner :: "Inner option"

text \<open>The \<open>options\<close> argument: each property may be missing.\<close>

record options =
  o_radius :: "jsnum option"
  o_gravity :: "jsnum option"
  o_friction :: "jsnum option"
  o_nestedDepth :: "jsnum option"
  o_maxNestedDepth :: "jsnum option"

text \<open>
  The constructor. \<open>rx\<close> and \<open>ry\<close> are the two values \<open>Math.random()\<close> returns
  when the inner level is built, each in \<open>[0, 1)\<close>.
\<close>

definition BallSim_new ::
  "jsnum \<Rightarrow> jsnum \<Rightarrow> jsnum \<Rightarrow> jsnum \<Rightarrow> options \<Rightarrow> real \<Rightarrow> real \<Rightarrow> BallSim" where
  "BallSim_new x y vx vy opts rx ry =
     (let radius = js_or_opt (o_radius opts) (Fin 36);
          gravity = js_nullish (o_gravity opts) (Fin 800);
          friction = js_nullish (o_friction opts) (Fin 0.995);
          nestedDepth = js_or_opt (o_nestedDepth opts) (Fin 0);
          maxNestedDepth = js_nullish (o_maxNestedDepth opts) (Fin 3);
          inner =
            (if js_lt nestedDepth maxNestedDepth
             then (let scale = Fin 0.42
                   in Some \<lparr>in_cx = Fin 0, in_cy = Fin 0,
                            in_radius = radius * scale,
                            in_polygonSides = js_max (Fin 3) (Fin 4 + nestedDepth),
                            in_ball =
                              \<lparr>ib_x = (- radius) * Fin 0.12,
                               ib_y = (- radius) * Fin 0.14,
                               ib_vx = (Fin rx - Fin 0.5) * Fin 40,
                               ib_vy = (Fin ry - Fin 0.5) * Fin 40,
                               ib_radius = js_max (Fin 6) (radius * Fin 0.22),
                               ib_gravity = gravity * Fin 1.1\<rparr>,
                            in_extra = None\<rparr>)
             else None)
      in \<lparr>b_x = x, b_y = y, b_vx = js_or vx (Fin 0), b_vy = js_or vy (Fin 0),
          b_radius = radius, b_gravity = gravity, b_friction = friction,
          b_nestedDepth = nestedDepth, b_maxNestedDepth = maxNestedDepth,
          b_inner = inner\<rparr>)"

definition applyGravity :: "jsnum \<Rightarrow> BallSim \<Rightarrow> BallSim" where
  "applyGravity dt this = this\<lparr>b_vy := b_vy this + b_gravity this * dt\<rparr>"

definition integrate :: "jsnum \<Rightarrow> BallSim \<Rightarrow> BallSim" where
  "integrate dt this =
     (let x = b_x this + b_vx this * dt;
          y = b_y this + b_vy this * dt;
          vx = b_vx this * js_pow (b_friction this) (dt * Fin 60);
          vy = b_vy this * js_pow (b_friction this) (dt * Fin 60)
      in this\<lparr>b_x := x, b_y := y, b_vx := vx, b_vy := vy\<rparr>)"

text \<open>
  The reflection step of a collision response, \<open>v - 2 * vdotn * n\<close> on each axis.
\<close>

definition reflect :: "jsnum \<Rightarrow> jsnum \<Rightarrow> jsnum \<Rightarrow> jsnum \<Rightarrow> jsnum \<times> jsnum" where
  "reflect vx vy nx ny =
     (let vdotn = vx * nx + vy * ny
      in (vx - Fin 2 * vdotn * nx, vy - Fin 2 * vdotn * ny))"

text \<open>
  \<open>handleCollisionWithPolygon\<close>: the flag it returns, the body and the polygon after
  the call.
\<close>

definition handleCollisionWithPolygon ::
  "BallSim \<Rightarrow> Polygon \<Rightarrow> abort + (bool \<times> BallSim \<times> Polygon)" where
  "handleCollisionWithPolygon this polygon =
     (case collideCircle polygon (b_x this) (b_y this) (b_radius this) of
        Inl e \<Rightarrow> Inl e
      | Inr (col, polygon) \<Rightarrow>
          (case col of
             NoHit \<Rightarrow> Inr (False, this, polygon)
           | Hit i cp n pen \<Rightarrow>
               (let nx = pt_x n; ny = pt_y n;
                    (vx, vy) = reflect (b_vx this) (b_vy this) nx ny;
                    x = b_x this + pt_x n * (pen + Fin 0.5);
                    y = b_y this + pt_y n * (pen + Fin 0.5);
                    vx = vx * Fin 0.98;
                    vy = vy * Fin 0.98
                in Inr (True, this\<lparr>b_x := x, b_y := y, b_vx := vx, b_vy := vy\<rparr>, polygon))))"

text \<open>\<open>updateInner\<close>: the flag it returns and the body after the call.\<close>

definition updateInner :: "jsnum \<Rightarrow> BallSim \<Rightarrow> abort + (bool \<times> BallSim)" where
  "updateInner dt this =
     (case b_inner this of
        None \<Rightarrow> Inr (False, this)
      | Some ip \<Rightarrow>
          (let ball = in_ball ip;
               vy = ib_vy ball + (b_gravity this * Fin 0.5) * dt;
               x = ib_x ball + ib_vx ball * dt;
               y = ib_y ball + vy * dt;
               vx = ib_vx ball * Fin 0.999;
               vy = vy * Fin 0.999
           in case Polygon_new (in_cx ip) (in_cy ip) (in_radius ip) (in_polygonSides ip)
                     (Fin pi / Fin 2) of
                None \<Rightarrow> Inl NonTermination
              | Some innerPoly \<Rightarrow>
                  (case collideCircle innerPoly x y (ib_radius ball) of
                     Inl e \<Rightarrow> Inl e
                   | Inr (col, innerPoly) \<Rightarrow>
                       (case col of
                          NoHit \<Rightarrow>
                            Inr (False,
                                 this\<lparr>b_inner := Some (ip\<lparr>in_ball :=
                                   ball\<lparr>ib_x := x, ib_y := y, ib_vx := vx, ib_vy := vy\<rparr>\<rparr>)\<rparr>)
                        | Hit i cp n pen \<Rightarrow>
                            (let nx = pt_x n; ny = pt_y n;
                                 (vx, vy) = reflect vx vy nx ny;
                                 x = x + nx * (pen + Fin 0.5);
                                 y = y + ny * (pen + Fin 0.5);
                                 vx = vx * Fin 0.98;
                                 vy = vy * Fin 0.98;
                                 polygonSides = js_min (Fin 20) (in_polygonSides ip + Fin 1)
                             in Inr (True,
                                     this\<lparr>b_inner := Some (ip\<lparr>in_ball :=
                                         ball\<lparr>ib_x := x, ib_y := y, ib_vx := vx, ib_vy := vy\<rparr>,
                                       in_polygonSides := polygonSides\<rparr>)\<rparr>))))))"

section \<open>app.js: the driver\<close>

text \<open>
  The object literal \<open>handleRecursiveUpdates\<close> stores in \<open>ip.extra\<close> when it is missing.
  \<open>rx\<close> and \<open>ry\<close> are the two values of \<open>Math.random()\<close>.
\<close>

definition newExtra :: "Inner \<Rightarrow> jsnum \<Rightarrow> real \<Rightarrow> real \<Rightarrow> Extra" where
  "newExtra ip depth rx ry =
     \<lparr>ex_polygonSides = js_max (Fin 3) (Fin 3 + depth + Fin 1),
      ex_ball =
        \<lparr>eb_x = ib_x (in_ball ip) * Fin 0.35,
         eb_y = ib_y (in_ball ip) * Fin 0.35,
         eb_vx = (Fin rx - Fin 0.5) * Fin 30,
         eb_vy = (Fin ry - Fin 0.5) * Fin 30,
         eb_radius = js_max (Fin 2) (ib_radius (in_ball ip) * Fin 0.35)\<rparr>\<rparr>"

text \<open>
  The rest of the deeper branch, from \<open>// integrate extra ball\<close> on: the state
  \<open>ip.extra\<close> after it.
\<close>

definition stepExtra :: "BallSim \<Rightarrow> Inner \<Rightarrow> jsnum \<Rightarrow> Extra \<Rightarrow> abort + Extra" where
  "stepExtra parentBall ip dt extra =
     (let ball = ex_ball extra;
          vy = eb_vy ball + (b_gravity parentBall * Fin 0.18) * dt;
          x = eb_x ball + eb_vx ball * dt;
          y = eb_y ball + vy * dt
      in case Polygon_new (Fin 0) (Fin 0) (ib_radius (in_ball ip) * Fin 0.6)
                (ex_polygonSides extra) (Fin pi / Fin 2) of
           None \<Rightarrow> Inl NonTermination
         | Some tinyPoly \<Rightarrow>
             (case collideCircle tinyPoly x y (eb_radius ball) of
                Inl e \<Rightarrow> Inl e
              | Inr (col, tinyPoly) \<Rightarrow>
                  (case col of
                     NoHit \<Rightarrow>
                       Inr (extra\<lparr>ex_ball := ball\<lparr>eb_x := x, eb_y := y, eb_vy := vy\<rparr>\<rparr>)
                   | Hit i cp n pen \<Rightarrow>
                       (let nx = pt_x n; ny = pt_y n;
                            (vx, vy) = reflect (eb_vx ball) vy nx ny;
                            x = x + nx * (pen + Fin 0.2);
                            y = y + ny * (pen + Fin 0.2);
                            vx = vx * Fin 0.98;
                            vy = vy * Fin 0.98;
                            polygonSides = js_min (Fin 30) (ex_polygonSides extra + Fin 1)
                        in Inr \<lparr>ex_polygonSides = polygonSides,
                                ex_ball =
                                  ball\<lparr>eb_x := x, eb_y := y, eb_vx := vx, eb_vy := vy\<rparr>\<rparr>))))"

text \<open>\<open>handleRecursiveUpdates(parentBall, dt, depth)\<close>: the body after the call.\<close>

definition handleRecursiveUpdates ::
  "BallSim \<Rightarrow> jsnum \<Rightarrow> jsnum \<Rightarrow> real \<Rightarrow> real \<Rightarrow> abort + BallSim" where
  "handleRecursiveUpdates parentBall dt depth rx ry =
     (case b_inner parentBall of
        None \<Rightarrow> Inr parentBall
      | Some ip0 \<Rightarrow>
          (case updateInner dt parentBall of
             Inl e \<Rightarrow> Inl e
           | Inr (innerHit, parentBall) \<Rightarrow>
               (if js_lt (b_nestedDepth parentBall + Fin 1) (b_maxNestedDepth parentBall)
                then (case b_inner parentBall of
                        None \<Rightarrow> Inl TypeError
                      | Some ip \<Rightarrow>
                          (let extra = (case in_extra ip of
                                          None \<Rightarrow> newExtra ip depth rx ry
                                        | Some e \<Rightarrow> e)
                           in case stepExtra parentBall ip dt extra of
                                Inl e \<Rightarrow> Inl e
                              | Inr extra \<Rightarrow>
                                  Inr (parentBall\<lparr>b_inner := Some (ip\<lparr>in_extra := Some extra\<rparr>)\<rparr>)))
                else Inr parentBall)))"

text \<open>
  The driver's state: the variables \<open>worldPolygon\<close> and \<open>ball\<close>, unassigned until
  \<open>init\<close> runs (the text of the side counter, a display, is left out).
\<close>

record world =
  w_worldPolygon :: "Polygon option"
  w_ball :: "BallSim option"

definition clamp :: "jsnum \<Rightarrow> jsnum \<Rightarrow> jsnum \<Rightarrow> jsnum" where
  "clamp v a b = js_max a (js_min b v)"

text \<open>
  \<open>update(dt)\<close>. \<open>W\<close> and \<open>H\<close> are the canvas's \<open>clientWidth\<close> and
  \<open>clientHeight\<close> as the tick reads them, \<open>rx\<close> and \<open>ry\<close> the random values the
  tick may draw.
\<close>

definition update :: "jsnum \<Rightarrow> jsnum \<Rightarrow> jsnum \<Rightarrow> real \<Rightarrow> real \<Rightarrow> world \<Rightarrow> abort + world" where
  "update dt W H rx ry w =
     (case (w_ball w, w_worldPolygon w) of
        (Some ball, Some worldPolygon) \<Rightarrow>
          (let ball = applyGravity dt ball;
               ball = integrate dt ball
           in case handleCollisionWithPolygon ball worldPolygon of
                Inl e \<Rightarrow> Inl e
              | Inr (collided, ball, worldPolygon) \<Rightarrow>
                  (case (if collided
                         then (case setSides worldPolygon (p_sides worldPolygon + Fin 1) of
                                 None \<Rightarrow> None
                               | Some worldPolygon \<Rightarrow>
                                   (case updateVertices worldPolygon of
                                      None \<Rightarrow> None
                                    | Some worldPolygon \<Rightarrow>
                                        Some (ball\<lparr>b_vx := b_vx ball * Fin 0.98,
                                                    b_vy := b_vy ball * Fin 0.98\<rparr>,
                                              worldPolygon)))
                         else Some (ball, worldPolygon)) of
                     None \<Rightarrow> Inl NonTermination
                   | Some (ball, worldPolygon) \<Rightarrow>
                       (let ball = ball\<lparr>b_x := clamp (b_x ball) (Fin 0) W,
                                        b_y := clamp (b_y ball) (Fin 0) H\<rparr>
                        in case handleRecursiveUpdates ball dt (Fin 0) rx ry of
                             Inl e \<Rightarrow> Inl e
                           | Inr ball \<Rightarrow>
                               Inr (w\<lparr>w_worldPolygon := Some worldPolygon,
                                      w_ball := Some ball\<rparr>))))
      | _ \<Rightarrow> Inr w)"

text \<open>
  \<open>init()\<close>, from the canvas size \<open>W\<close>, \<open>H\<close> and the depth slider's value
  \<open>maxNestedDepth\<close>.
\<close>

definition init :: "jsnum \<Rightarrow> jsnum \<Rightarrow> jsnum \<Rightarrow> real \<Rightarrow> real \<Rightarrow> abort + world" where
  "init W H maxNestedDepth rx ry =
     (let centerX = W / Fin 2;
          centerY = H / Fin 2;
          polyRadius = js_min W H * Fin 0.38
      in case Polygon_new centerX centerY polyRadius (Fin 6) (- (Fin pi) / Fin 2) of
           None \<Rightarrow> Inl NonTermination
         | Some worldPolygon \<Rightarrow>
             (let bRadius = js_max (Fin 24) (polyRadius * Fin 0.12);
                  ball = BallSim_new centerX (centerY - polyRadius * Fin 0.35) (Fin 120) (Fin 30)
                           \<lparr>o_radius = Some bRadius, o_gravity = Some (Fin 900),
                            o_friction = None, o_nestedDepth = Some (Fin 0),
                            o_maxNestedDepth = Some maxNestedDepth\<rparr> rx ry
              in Inr \<lparr>w_worldPolygon = Some worldPolygon, w_ball = Some ball\<rparr>))"

text \<open>A run of ticks, each with its inputs \<open>(dt, W, H, rx, ry)\<close>.\<close>

fun run :: "(jsnum \<times> jsnum \<times> jsnum \<times> real \<times> real) list \<Rightarrow> world \<Rightarrow> abort + world" where
  "run [] w = Inr w"
| "run ((dt, W, H, rx, ry) # ticks) w =
     (case update dt W H rx ry w of
        Inl e \<Rightarrow> Inl e
      | Inr w' \<Rightarrow> run ticks w')"

section \<open>Notions of the specification\<close>

text \<open>
  The words of the specification, as definitions of their own: they are what the
  program is compared with, never part of it.
\<close>

subsection \<open>The representation of a polygon\<close>

text \<open>
  Truncation toward zero, the specification's reading of \<open>Math.floor\<close> under the
  clamp to 3.
\<close>

definition trunc :: "real \<Rightarrow> int" where
  "trunc r = (if 0 \<le> r then \<lfloor>r\<rfloor> else \<lceil>r\<rceil>)"

text \<open>
  Vertex \<open>i\<close> of a polygon with \<open>k\<close> sides as the specification writes it:
  the center plus the radius times \<open>(cos \<theta>, sin \<theta>)\<close> at
  \<open>\<theta> = rotation + i * 2\<pi> / k\<close>.
\<close>

definition spec_vertex :: "Polygon \<Rightarrow> nat \<Rightarrow> nat \<Rightarrow> point" where
  "spec_vertex p k i =
     (let theta = p_rotation p + Fin (real i * (2 * pi) / real k)
      in \<lparr>pt_x = p_cx p + p_radius p * js_cos theta,
          pt_y = p_cy p + p_radius p * js_sin theta\<rparr>)"

text \<open>
  The invariant: the side count is an integer at least 3 and the vertex list is the list
  of the \<open>sides\<close> vertices of that formula.
\<close>

definition consistent :: "Polygon \<Rightarrow> bool" where
  "consistent p =
     (case p_sides p of
        Fin s \<Rightarrow> 3 \<le> s \<and> s = of_int \<lfloor>s\<rfloor> \<and>
                 p_vertices p = map (spec_vertex p (nat \<lfloor>s\<rfloor>)) [0..<nat \<lfloor>s\<rfloor>]
      | _ \<Rightarrow> False)"

subsection \<open>Distances, over the reals\<close>

text \<open>
  A point with finite coordinates, the closest point of a segment (the clamp of the
  projection parameter to \<open>[0, 1]\<close>; on a segment of length zero the parameter is 0
  and the point is \<open>a\<close>), the Euclidean distance, and for a vertex list the closest
  point and distance of edge \<open>i\<close> (from vertex \<open>i\<close> to vertex
  \<open>(i + 1) mod n\<close>) and the minimum over the edges.
\<close>

definition fpoint :: "real \<times> real \<Rightarrow> point" where
  "fpoint v = \<lparr>pt_x = Fin (fst v), pt_y = Fin (snd v)\<rparr>"

definition seg_closest :: "real \<times> real \<Rightarrow> real \<times> real \<Rightarrow> real \<times> real \<Rightarrow> real \<times> real" where
  "seg_closest p a b =
     (let vx = fst b - fst a; vy = snd b - snd a;
          wx = fst p - fst a; wy = snd p - snd a;
          t = max 0 (min 1 ((vx * wx + vy * wy) / (vx * vx + vy * vy)))
      in (fst a + vx * t, snd a + vy * t))"

definition vdist :: "real \<times> real \<Rightarrow> real \<times> real \<Rightarrow> real" where
  "vdist p q = sqrt ((fst p - fst q) * (fst p - fst q) + (snd p - snd q) * (snd p - snd q))"

definition edge_closest :: "(real \<times> real) list \<Rightarrow> real \<times> real \<Rightarrow> nat \<Rightarrow> real \<times> real" where
  "edge_closest vs c i = seg_closest c (vs ! i) (vs ! ((i + 1) mod length vs))"

definition edge_dist :: "(real \<times> real) list \<Rightarrow> real \<times> real \<Rightarrow> nat \<Rightarrow> real" where
  "edge_dist vs c i = vdist c (edge_closest vs c i)"

definition min_edge_dist :: "(real \<times> real) list \<Rightarrow> real \<times> real \<Rightarrow> real" where
  "min_edge_dist vs c = Min (edge_dist vs c ` {..<length vs})"

text \<open>
  The perpendicular \<open>(-dy, dx)\<close> of an edge divided by its length (by 1 when the
  length is 0), and its flip when the dot product with \<open>t\<close> is negative.
\<close>

definition unit_perp :: "real \<times> real \<Rightarrow> real \<times> real \<Rightarrow> real \<times> real" where
  "unit_perp a b =
     (let dx = fst b - fst a; dy = snd b - snd a;
          l = sqrt (dx * dx + dy * dy);
          l = (if l = 0 then 1 else l)
      in (- dy / l, dx / l))"

definition outward :: "real \<times> real \<Rightarrow> real \<times> real \<Rightarrow> real \<times> real" where
  "outward n t = (if fst t * fst n + snd t * snd n < 0 then (- fst n, - snd n) else n)"

text \<open>
  No edge of the vertex list has length zero.
\<close>

definition nondegenerate :: "(real \<times> real) list \<Rightarrow> bool" where
  "nondegenerate vs = list_all (\<lambda>i. vs ! i \<noteq> vs ! ((i + 1) mod length vs)) [0..<length vs]"

text \<open>
  The vertices of the regular polygon with center \<open>(cx, cy)\<close>, radius \<open>R\<close>,
  rotation \<open>rot\<close> and \<open>k\<close> sides, and its apothem.
\<close>

definition regular_vertex :: "real \<Rightarrow> real \<Rightarrow> real \<Rightarrow> real \<Rightarrow> nat \<Rightarrow> nat \<Rightarrow> real \<times> real" where
  "regular_vertex cx cy R rot k i =
     (cx + R * cos (rot + real i * (2 * pi) / real k),
      cy + R * sin (rot + real i * (2 * pi) / real k))"

definition regular_vertices :: "real \<Rightarrow> real \<Rightarrow> real \<Rightarrow> real \<Rightarrow> nat \<Rightarrow> (real \<times> real) list" where
  "regular_vertices cx cy R rot k = map (regular_vertex cx cy R rot k) [0..<k]"

definition apothem :: "real \<Rightarrow> nat \<Rightarrow> real" where
  "apothem R k = R * cos (pi / real k)"

subsection \<open>Conditions under which a tick returns\<close>

text \<open>
  The constructor of a polygon does not return on an infinite side count, and
  \<open>collideCircle\<close> can throw only at an infinite circle radius. A body whose nested
  side counts and radii are not \<open>Infinity\<close> keeps them so.
\<close>

definition tiers_ok :: "BallSim \<Rightarrow> bool" where
  "tiers_ok b =
     (case b_inner b of
        None \<Rightarrow> True
      | Some ip \<Rightarrow>
          in_polygonSides ip \<noteq> PInf \<and> ib_radius (in_ball ip) \<noteq> PInf \<and>
          (case in_extra ip of
             None \<Rightarrow> True
           | Some e \<Rightarrow> ex_polygonSides e \<noteq> PInf \<and> eb_radius (ex_ball e) \<noteq> PInf))"

text \<open>
  The condition \<open>parentBall.nestedDepth + 1 < parentBall.maxNestedDepth\<close> of
  \<open>handleRecursiveUpdates\<close>.
\<close>

definition recursion_gate :: "BallSim \<Rightarrow> bool" where
  "recursion_gate b = js_lt (b_nestedDepth b + Fin 1) (b_maxNestedDepth b)"

text \<open>
  A driver state after \<open>init\<close>: both variables assigned, the world polygon
  satisfying its invariant, the body as above.
\<close>

definition world_ok :: "world \<Rightarrow> bool" where
  "world_ok w =
     (case (w_ball w, w_worldPolygon w) of
        (Some ball, Some p) \<Rightarrow> consistent p \<and> b_radius ball \<noteq> PInf \<and> tiers_ok ball
      | _ \<Rightarrow> False)"

text \<open>
  A sequence of \<open>updateInner\<close> calls on one body, one time step each.
\<close>

fun updateInner_calls :: "jsnum list \<Rightarrow> BallSim \<Rightarrow> abort + BallSim" where
  "updateInner_calls [] b = Inr b"
| "updateInner_calls (dt # dts) b =
     (case updateInner dt b of
        Inl e \<Rightarrow> Inl e
      | Inr (hit, b') \<Rightarrow> updateInner_calls dts b')"

subsection \<open>Scenes\<close>

text \<open>
  A body of radius 10 just below the top vertex of a hexagon of radius 100 (the polygon of
  scenario 8 of the specification), with three levels allowed; the same body further down
  with one level allowed; and a body of radius 1 at nested depth \<open>d\<close>, whose inner
  ball (radius 6) is larger than its inner polygon (radius 0.42).
\<close>

definition scene_ball :: BallSim where
  "scene_ball = BallSim_new (Fin 0) (Fin (- 95)) (Fin 0) (Fin 50)
     \<lparr>o_radius = Some (Fin 10), o_gravity = Some (Fin 900), o_friction = None,
      o_nestedDepth = Some (Fin 0), o_maxNestedDepth = Some (Fin 3)\<rparr> (1 / 2) (1 / 2)"

definition depth_one_ball :: BallSim where
  "depth_one_ball = BallSim_new (Fin 0) (Fin (- 60)) (Fin 0) (Fin 50)
     \<lparr>o_radius = Some (Fin 10), o_gravity = Some (Fin 900), o_friction = None,
      o_nestedDepth = Some (Fin 0), o_maxNestedDepth = Some (Fin 1)\<rparr> (1 / 2) (1 / 2)"

definition tight_ball :: "real \<Rightarrow> BallSim" where
  "tight_ball d = BallSim_new (Fin 0) (Fin 0) (Fin 0) (Fin 0)
     \<lparr>o_radius = Some (Fin 1), o_gravity = None, o_friction = None,
      o_nestedDepth = Some (Fin d), o_maxNestedDepth = Some (Fin (d + 1))\<rparr> (1 / 2) (1 / 2)"

section \<open>Arithmetic on finite values\<close>

lemma Fin_minus [simp]: "Fin a - Fin b = Fin (a - b)"
  by (simp add: minus_jsnum_def)

lemma twoPI_eq: "twoPI = Fin (pi * 2)"
  by (simp add: twoPI_def)

lemma jsnum_mult_commute: "(a::jsnum) * b = b * a"
  by (cases a; cases b) (simp_all add: mult.commute)

lemma js_le_PInf_plus: "r \<noteq> PInf \<Longrightarrow> \<not> js_le PInf (r + Fin e)"
  by (cases r) simp_all

lemma js_min_not_PInf: "js_min (Fin a) v \<noteq> PInf"
  by (cases v) simp_all

lemma js_max_PInf_iff: "js_max (Fin a) v = PInf \<longleftrightarrow> v = PInf"
  by (cases v) simp_all

lemma js_mult_PInf_iff: "0 < a \<Longrightarrow> v * Fin a = PInf \<longleftrightarrow> v = PInf"
  by (cases v) simp_all

lemma js_add_PInf_iff: "v + Fin a = PInf \<longleftrightarrow> v = PInf"
  by (cases v) simp_all

lemma js_add_PInf_iff2: "Fin a + v = PInf \<longleftrightarrow> v = PInf"
  by (cases v) simp_all

section \<open>The vertex loop\<close>

text \<open>
  At a finite side count \<open>s\<close> the loop ends after \<open>\<lceil>s\<rceil>\<close> rounds; at
  \<open>NaN\<close> and \<open>-Infinity\<close> it makes no round; at \<open>Infinity\<close> it never
  ends.
\<close>

lemma loop_fin:
  "p_sides this = Fin s \<Longrightarrow>
   updateVertices_loop this i verts = Some (verts @ map (vertexAt this) [i..<nat \<lceil>s\<rceil>])"
proof (induction "nat \<lceil>s\<rceil> - i" arbitrary: i verts)
  case 0
  then have "\<not> real i < s" by linarith
  with 0 show ?case
    by (subst updateVertices_loop.simps) simp
next
  case (Suc m)
  then have lt: "i < nat \<lceil>s\<rceil>" by linarith
  then have "real i < s" by linarith
  moreover have "m = nat \<lceil>s\<rceil> - Suc i" using Suc.hyps(2) by linarith
  ultimately show ?case
    using Suc.hyps(1)[of "Suc i" "verts @ [vertexAt this i]"] Suc.prems lt
    by (subst updateVertices_loop.simps) (simp add: upt_conv_Cons)
qed

lemma loop_no_round:
  "p_sides this = NaN \<or> p_sides this = NInf \<Longrightarrow> updateVertices_loop this i verts = Some verts"
  by (subst updateVertices_loop.simps) auto

lemma loop_PInf_aux:
  assumes "updateVertices_loop this i verts = Some y"
  shows "p_sides this \<noteq> PInf"
  by (rule updateVertices_loop.raw_induct[OF _ assms]) (auto split: if_splits)

lemma loop_PInf: "p_sides this = PInf \<Longrightarrow> updateVertices_loop this i verts = None"
  using loop_PInf_aux[of this i verts] by (cases "updateVertices_loop this i verts") auto

lemma max_floor_trunc: "max 3 \<lfloor>n\<rfloor> = max 3 (trunc n)"
proof (cases "0 \<le> n")
  case True
  then show ?thesis by (simp add: trunc_def)
next
  case False
  then have "\<lfloor>n\<rfloor> \<le> 0" "\<lceil>n\<rceil> \<le> 0" by linarith+
  with False show ?thesis by (simp add: trunc_def max_def)
qed

lemma js_max_floor: "js_max (Fin 3) (js_floor (Fin n)) = Fin (of_int (max 3 (trunc n)))"
proof -
  have "js_max (Fin 3) (js_floor (Fin n)) = Fin (of_int (max 3 \<lfloor>n\<rfloor>))"
    by (simp add: max_def) linarith
  then show ?thesis by (simp only: max_floor_trunc)
qed

lemma spec_vertex_vertices [simp]:
  "spec_vertex (p\<lparr>p_vertices := vs\<rparr>) = spec_vertex p"
  by (simp add: spec_vertex_def fun_eq_iff)

lemma vertexAt_spec:
  assumes "p_sides p = Fin (real k)" and "0 < k"
  shows "vertexAt p i = spec_vertex p k i"
proof -
  have "real i / real k * (pi * 2) = real i * (2 * pi) / real k" by simp
  with assms have ang: "Fin (real i) / p_sides p * twoPI = Fin (real i * (2 * pi) / real k)"
    by (simp add: twoPI_eq del: times_divide_eq_left times_divide_eq_right)
  show ?thesis
    unfolding vertexAt_def spec_vertex_def Let_def ang
    by (simp add: jsnum_mult_commute)
qed

lemma updateVertices_int:
  assumes "p_sides p = Fin (of_int z)" and "3 \<le> z"
  shows "updateVertices p = Some (p\<lparr>p_vertices := map (spec_vertex p (nat z)) [0..<nat z]\<rparr>)"
    and "consistent (p\<lparr>p_vertices := map (spec_vertex p (nat z)) [0..<nat z]\<rparr>)"
proof -
  have k: "p_sides p = Fin (real (nat z))" "0 < nat z" using assms by simp_all
  have "map (vertexAt p) [0..<nat z] = map (spec_vertex p (nat z)) [0..<nat z]"
    using vertexAt_spec[OF k] by simp
  then show "updateVertices p = Some (p\<lparr>p_vertices := map (spec_vertex p (nat z)) [0..<nat z]\<rparr>)"
    using loop_fin[OF assms(1), of 0 "[]"] by (simp add: updateVertices_def)
  show "consistent (p\<lparr>p_vertices := map (spec_vertex p (nat z)) [0..<nat z]\<rparr>)"
    using assms by (simp add: consistent_def)
qed

lemma consistent_sides:
  "consistent p \<Longrightarrow> \<exists>z. 3 \<le> z \<and> p_sides p = Fin (of_int z) \<and>
     p_vertices p = map (spec_vertex p (nat z)) [0..<nat z]"
  unfolding consistent_def
  by (cases "p_sides p") (auto intro!: exI[of _ "\<lfloor>_\<rfloor>"])

lemma consistent_vertices:
  assumes "consistent p"
  shows "\<exists>k. 3 \<le> k \<and> p_sides p = Fin (real k) \<and> length (p_vertices p) = k \<and>
     (\<forall>i<k. p_vertices p ! i = spec_vertex p k i)"
proof -
  from consistent_sides[OF assms] obtain z where z: "3 \<le> z" "p_sides p = Fin (of_int z)"
    "p_vertices p = map (spec_vertex p (nat z)) [0..<nat z]" by blast
  then show ?thesis
    by (intro exI[of _ "nat z"]) auto
qed

lemma consistent_updateVertices:
  assumes "consistent p"
  shows "updateVertices p = Some p"
proof -
  from consistent_sides[OF assms] obtain z where z: "3 \<le> z" "p_sides p = Fin (of_int z)"
    "p_vertices p = map (spec_vertex p (nat z)) [0..<nat z]" by blast
  from updateVertices_int(1)[OF z(2,1)] z(3) show ?thesis by simp
qed

lemma Polygon_new_fin:
  "\<exists>p. Polygon_new cx cy r (Fin n) rot = Some p \<and> consistent p \<and>
       p_sides p = Fin (of_int (max 3 (trunc n))) \<and>
       p_cx p = cx \<and> p_cy p = cy \<and> p_radius p = r \<and> p_rotation p = rot"
proof -
  let ?z = "max 3 (trunc n)"
  let ?q = "\<lparr>p_cx = cx, p_cy = cy, p_radius = r, p_sides = Fin (of_int ?z),
             p_rotation = rot, p_vertices = []\<rparr>"
  have "p_sides ?q = Fin (of_int ?z)" "3 \<le> ?z" by simp_all
  from updateVertices_int[OF this] show ?thesis
    unfolding Polygon_new_def js_max_floor by simp
qed

lemma setSides_fin:
  "\<exists>p. setSides q (Fin n) = Some p \<and> consistent p \<and>
       p_sides p = Fin (of_int (max 3 (trunc n))) \<and>
       p_cx p = p_cx q \<and> p_cy p = p_cy q \<and> p_radius p = p_radius q \<and>
       p_rotation p = p_rotation q"
proof -
  let ?z = "max 3 (trunc n)"
  let ?q = "q\<lparr>p_sides := Fin (of_int ?z)\<rparr>"
  have "p_sides ?q = Fin (of_int ?z)" "3 \<le> ?z" by simp_all
  from updateVertices_int[OF this] show ?thesis
    unfolding setSides_def js_max_floor by simp
qed

lemma setRadius_consistent:
  assumes "consistent q"
  shows "\<exists>p. setRadius q r = Some p \<and> consistent p \<and> p_radius p = r \<and>
       p_sides p = p_sides q \<and> p_cx p = p_cx q \<and> p_cy p = p_cy q \<and>
       p_rotation p = p_rotation q"
proof -
  from consistent_sides[OF assms] obtain z where z: "3 \<le> z" "p_sides q = Fin (of_int z)"
    by blast
  let ?q = "q\<lparr>p_radius := r\<rparr>"
  have "p_sides ?q = Fin (of_int z)" using z by simp
  from updateVertices_int[OF this z(1)] show ?thesis
    by (simp add: setRadius_def)
qed

lemma setCenter_consistent:
  assumes "consistent q"
  shows "\<exists>p. setCenter q x y = Some p \<and> consistent p \<and> p_cx p = x \<and> p_cy p = y \<and>
       p_sides p = p_sides q \<and> p_radius p = p_radius q \<and> p_rotation p = p_rotation q"
proof -
  from consistent_sides[OF assms] obtain z where z: "3 \<le> z" "p_sides q = Fin (of_int z)"
    by blast
  let ?q = "q\<lparr>p_cx := x, p_cy := y\<rparr>"
  have "p_sides ?q = Fin (of_int z)" using z by simp
  from updateVertices_int[OF this z(1)] show ?thesis
    by (simp add: setCenter_def)
qed

lemma consistent_grow:
  assumes "consistent p" and "p_sides p = Fin (real k)"
  shows "\<exists>p'. setSides p (p_sides p + Fin 1) = Some p' \<and> consistent p' \<and>
           p_sides p' = Fin (real (k + 1))"
proof -
  from consistent_sides[OF assms(1)] obtain z where z: "3 \<le> z" "p_sides p = Fin (of_int z)"
    by blast
  from z(2) assms(2) have zk: "z = int k" by simp
  have "max 3 (trunc (real k + 1)) = int k + 1"
    using z(1) zk by (simp add: trunc_def max_def)
  with setSides_fin[of p "real k + 1"] assms(2) show ?thesis
    by (auto simp: add.commute)
qed

lemma Polygon_new_returns:
  assumes "sides \<noteq> PInf"
  shows "\<exists>p. Polygon_new cx cy r sides rot = Some p"
proof (cases sides)
  case (Fin n)
  then show ?thesis using Polygon_new_fin[of cx cy r n rot] by blast
next
  case PInf
  with assms show ?thesis by simp
next
  case NInf
  let ?q = "\<lparr>p_cx = cx, p_cy = cy, p_radius = r, p_sides = Fin (of_int 3),
             p_rotation = rot, p_vertices = []\<rparr>"
  have "p_sides ?q = Fin (of_int 3)" "(3::int) \<le> 3" by simp_all
  from updateVertices_int(1)[OF this] show ?thesis
    using NInf by (simp add: Polygon_new_def)
next
  case NaN
  then show ?thesis
    by (simp add: Polygon_new_def updateVertices_def loop_no_round)
qed

lemma spec_vertex_fin:
  assumes "p_cx p = Fin cx" "p_cy p = Fin cy" "p_radius p = Fin R" "p_rotation p = Fin rot"
  shows "spec_vertex p k i = fpoint (regular_vertex cx cy R rot k i)"
  using assms by (simp add: spec_vertex_def regular_vertex_def fpoint_def Let_def)

lemma consistent_regular:
  assumes "consistent p"
    and "p_cx p = Fin cx" "p_cy p = Fin cy" "p_radius p = Fin R" "p_rotation p = Fin rot"
  shows "\<exists>k. 3 \<le> k \<and> p_sides p = Fin (real k) \<and>
           p_vertices p = map fpoint (regular_vertices cx cy R rot k)"
proof -
  from consistent_sides[OF assms(1)] obtain z where z: "3 \<le> z" "p_sides p = Fin (of_int z)"
    "p_vertices p = map (spec_vertex p (nat z)) [0..<nat z]" by blast
  have "p_vertices p = map fpoint (regular_vertices cx cy R rot (nat z))"
    unfolding z(3) regular_vertices_def using spec_vertex_fin[OF assms(2-5)] by simp
  with z show ?thesis by (intro exI[of _ "nat z"]) auto
qed

lemma Polygon_new_regular:
  "\<exists>p. Polygon_new (Fin cx) (Fin cy) (Fin R) (Fin n) (Fin rot) = Some p \<and> consistent p \<and>
       p_cx p = Fin cx \<and> p_cy p = Fin cy \<and> p_radius p = Fin R \<and> p_rotation p = Fin rot \<and>
       p_sides p = Fin (real (nat (max 3 (trunc n)))) \<and>
       p_vertices p = map fpoint (regular_vertices cx cy R rot (nat (max 3 (trunc n))))"
proof -
  from Polygon_new_fin[of "Fin cx" "Fin cy" "Fin R" n "Fin rot"] obtain p where
    p: "Polygon_new (Fin cx) (Fin cy) (Fin R) (Fin n) (Fin rot) = Some p" "consistent p"
       "p_sides p = Fin (of_int (max 3 (trunc n)))"
       "p_cx p = Fin cx" "p_cy p = Fin cy" "p_radius p = Fin R" "p_rotation p = Fin rot"
    by blast
  from consistent_regular[OF p(2) p(4-7)] obtain k where
    k: "p_sides p = Fin (real k)" "p_vertices p = map fpoint (regular_vertices cx cy R rot k)"
    by blast
  from k(1) p(3) have "real k = real_of_int (max 3 (trunc n))" by simp
  then have "int k = max 3 (trunc n)" by linarith
  then have "k = nat (max 3 (trunc n))" by simp
  with p k show ?thesis by simp
qed

section \<open>The scan of the edges\<close>

text \<open>
  On a vertex list with finite coordinates and no edge of length zero every distance of
  the scan is finite, and the scan ends on the first edge of minimal distance.
\<close>

lemma nondegenerateD:
  "nondegenerate vs \<Longrightarrow> i < length vs \<Longrightarrow> vs ! i \<noteq> vs ! ((i + 1) mod length vs)"
  by (simp add: nondegenerate_def list_all_iff)

lemma closestPointOnSegment_fin:
  assumes "a \<noteq> b"
  shows "closestPointOnSegment (Fin (fst p)) (Fin (snd p)) (Fin (fst a)) (Fin (snd a))
           (Fin (fst b)) (Fin (snd b)) = fpoint (seg_closest p a b)"
proof -
  have "fst b - fst a \<noteq> 0 \<or> snd b - snd a \<noteq> 0"
    using assms by (auto simp: prod_eq_iff)
  then have nz: "(fst b - fst a) * (fst b - fst a) + (snd b - snd a) * (snd b - snd a) \<noteq> 0"
    by (simp add: sum_squares_eq_zero_iff)
  show ?thesis
    using nz
    by (simp add: closestPointOnSegment_def seg_closest_def fpoint_def Let_def max_def min_def)
qed

lemma collide_edge_fin:
  assumes "i < length vs" and "vs ! i \<noteq> vs ! ((i + 1) mod length vs)"
  shows "collide_edge (map fpoint vs) (Fin (fst c)) (Fin (snd c)) i best =
     (if js_lt (Fin (edge_dist vs c i)) (best_dist best)
      then BestEdge (Fin (edge_dist vs c i)) (fpoint (edge_closest vs c i)) i
             (fpoint (vs ! i)) (fpoint (vs ! ((i + 1) mod length vs)))
      else best)"
proof -
  have "0 < length vs" using assms(1) by (cases vs) auto
  then have j: "(i + 1) mod length vs < length vs" by (rule mod_less_divisor)
  have cp: "closestPointOnSegment (Fin (fst c)) (Fin (snd c))
              (pt_x (map fpoint vs ! i)) (pt_y (map fpoint vs ! i))
              (pt_x (map fpoint vs ! ((i + 1) mod length vs)))
              (pt_y (map fpoint vs ! ((i + 1) mod length vs)))
            = fpoint (edge_closest vs c i)"
    using closestPointOnSegment_fin[OF assms(2), of c] assms(1) j
    by (simp add: edge_closest_def fpoint_def)
  show ?thesis
    unfolding collide_edge_def Let_def length_map cp
    using assms(1) j
    by (simp add: edge_dist_def vdist_def fpoint_def not_sum_squares_lt_zero)
qed

lemma fold_best:
  assumes nd: "nondegenerate vs" and m: "0 < m" "m \<le> length vs"
  shows "\<exists>k<m. fold (collide_edge (map fpoint vs) (Fin (fst c)) (Fin (snd c))) [0..<m] BestInit =
            BestEdge (Fin (edge_dist vs c k)) (fpoint (edge_closest vs c k)) k
              (fpoint (vs ! k)) (fpoint (vs ! ((k + 1) mod length vs))) \<and>
          (\<forall>j<m. edge_dist vs c k \<le> edge_dist vs c j)"
  using m
proof (induction m)
  case 0
  then show ?case by simp
next
  case (Suc m)
  have step: "collide_edge (map fpoint vs) (Fin (fst c)) (Fin (snd c)) m best =
     (if js_lt (Fin (edge_dist vs c m)) (best_dist best)
      then BestEdge (Fin (edge_dist vs c m)) (fpoint (edge_closest vs c m)) m
             (fpoint (vs ! m)) (fpoint (vs ! ((m + 1) mod length vs)))
      else best)" for best
    using collide_edge_fin[of m vs c best] nondegenerateD[OF nd, of m] Suc.prems by simp
  show ?case
  proof (cases "m = 0")
    case True
    then show ?thesis using step[of BestInit] by simp
  next
    case False
    with Suc obtain k where k: "k < m"
      "fold (collide_edge (map fpoint vs) (Fin (fst c)) (Fin (snd c))) [0..<m] BestInit =
            BestEdge (Fin (edge_dist vs c k)) (fpoint (edge_closest vs c k)) k
              (fpoint (vs ! k)) (fpoint (vs ! ((k + 1) mod length vs)))"
      "\<forall>j<m. edge_dist vs c k \<le> edge_dist vs c j"
      by auto
    show ?thesis
    proof (cases "edge_dist vs c m < edge_dist vs c k")
      case True
      then have "\<forall>j<Suc m. edge_dist vs c m \<le> edge_dist vs c j"
        using k(3) by (auto simp: less_Suc_eq)
      then show ?thesis using True k(2) step by (intro exI[of _ m]) simp
    next
      case False
      then have "\<forall>j<Suc m. edge_dist vs c k \<le> edge_dist vs c j"
        using k(3) by (auto simp: less_Suc_eq)
      then show ?thesis using False k(1,2) step by (intro exI[of _ k]) simp
    qed
  qed
qed

lemma min_edge_dist_eq:
  assumes "k < length vs" and "\<forall>j<length vs. edge_dist vs c k \<le> edge_dist vs c j"
  shows "min_edge_dist vs c = edge_dist vs c k"
  unfolding min_edge_dist_def
  using assms by (intro Min_eqI) auto

lemma min_edge_dist_le:
  "i < length vs \<Longrightarrow> min_edge_dist vs c \<le> edge_dist vs c i"
  unfolding min_edge_dist_def by (intro Min_le) auto

lemma edge_len_pos:
  assumes "a \<noteq> b"
  shows "0 < sqrt ((fst b - fst a) * (fst b - fst a) + (snd b - snd a) * (snd b - snd a))"
proof -
  have "fst b - fst a \<noteq> 0 \<or> snd b - snd a \<noteq> 0"
    using assms by (auto simp: prod_eq_iff)
  then have "0 < (fst b - fst a) * (fst b - fst a) + (snd b - snd a) * (snd b - snd a)"
    by (simp only: sum_squares_gt_zero_iff)
  then show ?thesis by (simp only: real_sqrt_gt_0_iff)
qed

lemma unit_perp_eq:
  assumes "a \<noteq> b"
  shows "unit_perp a b =
     (- (snd b - snd a) / sqrt ((fst b - fst a) * (fst b - fst a) + (snd b - snd a) * (snd b - snd a)),
      (fst b - fst a) / sqrt ((fst b - fst a) * (fst b - fst a) + (snd b - snd a) * (snd b - snd a)))"
proof -
  have "sqrt ((fst b - fst a) * (fst b - fst a) + (snd b - snd a) * (snd b - snd a)) \<noteq> 0"
    using edge_len_pos[OF assms] by linarith
  then show ?thesis
    unfolding unit_perp_def Let_def by (simp only: if_False)
qed

lemma unit_perp_norm:
  assumes "a \<noteq> b"
  shows "fst (unit_perp a b) * fst (unit_perp a b) + snd (unit_perp a b) * snd (unit_perp a b) = 1"
proof -
  define l where "l = sqrt ((fst b - fst a) * (fst b - fst a) + (snd b - snd a) * (snd b - snd a))"
  have l: "0 < l" unfolding l_def by (rule edge_len_pos[OF assms])
  have sq: "l * l = (fst b - fst a) * (fst b - fst a) + (snd b - snd a) * (snd b - snd a)"
    unfolding l_def by simp
  have up: "unit_perp a b = (- (snd b - snd a) / l, (fst b - fst a) / l)"
    unfolding l_def by (rule unit_perp_eq[OF assms])
  have "(- y / l) * (- y / l) + (x / l) * (x / l) = (x * x + y * y) / (l * l)" for x y :: real
    by (simp add: add_divide_distrib)
  then have "(- (snd b - snd a) / l) * (- (snd b - snd a) / l) + ((fst b - fst a) / l) * ((fst b - fst a) / l)
        = ((fst b - fst a) * (fst b - fst a) + (snd b - snd a) * (snd b - snd a)) / (l * l)" .
  also have "\<dots> = 1" unfolding sq[symmetric] using l by simp
  finally show ?thesis unfolding up fst_conv snd_conv .
qed

lemma outward_norm:
  "fst (outward n t) * fst (outward n t) + snd (outward n t) * snd (outward n t)
     = fst n * fst n + snd n * snd n"
  by (simp add: outward_def)

lemma outward_dot: "0 \<le> fst t * fst (outward n t) + snd t * snd (outward n t)"
  by (simp add: outward_def)

lemma normal_fin:
  assumes "a \<noteq> b"
  shows "- (Fin (snd b) - Fin (snd a)) /
           js_or (js_hypot (- (Fin (snd b) - Fin (snd a))) (Fin (fst b) - Fin (fst a))) (Fin 1)
         = Fin (fst (unit_perp a b))"
    and "(Fin (fst b) - Fin (fst a)) /
           js_or (js_hypot (- (Fin (snd b) - Fin (snd a))) (Fin (fst b) - Fin (fst a))) (Fin 1)
         = Fin (snd (unit_perp a b))"
proof -
  define l where "l = sqrt ((fst b - fst a) * (fst b - fst a) + (snd b - snd a) * (snd b - snd a))"
  have l: "0 < l" unfolding l_def by (rule edge_len_pos[OF assms])
  have "(- y) * (- y) + x * x = x * x + y * y" for x y :: real
    by simp
  then have "(- (snd b - snd a)) * (- (snd b - snd a)) + (fst b - fst a) * (fst b - fst a)
        = (fst b - fst a) * (fst b - fst a) + (snd b - snd a) * (snd b - snd a)" .
  then have hyp: "js_hypot (- (Fin (snd b) - Fin (snd a))) (Fin (fst b) - Fin (fst a)) = Fin l"
    unfolding l_def Fin_minus uminus_jsnum.simps js_hypot.simps by (simp only:)
  have nl: "js_or (Fin l) (Fin 1) = Fin l" using l by (simp add: js_or_def)
  have up: "unit_perp a b = (- (snd b - snd a) / l, (fst b - fst a) / l)"
    unfolding l_def by (rule unit_perp_eq[OF assms])
  show "- (Fin (snd b) - Fin (snd a)) /
           js_or (js_hypot (- (Fin (snd b) - Fin (snd a))) (Fin (fst b) - Fin (fst a))) (Fin 1)
         = Fin (fst (unit_perp a b))"
    unfolding hyp nl up using l by simp
  show "(Fin (fst b) - Fin (fst a)) /
           js_or (js_hypot (- (Fin (snd b) - Fin (snd a))) (Fin (fst b) - Fin (fst a))) (Fin 1)
         = Fin (snd (unit_perp a b))"
    unfolding hyp nl up using l by simp
qed

lemma collideCircle_fin:
  assumes verts: "p_vertices this = map fpoint vs" and nd: "nondegenerate vs"
    and ne: "vs \<noteq> []"
    and centre: "p_cx this = Fin pcx" "p_cy this = Fin pcy"
  shows "\<exists>k<length vs. (\<forall>j<length vs. edge_dist vs c k \<le> edge_dist vs c j) \<and>
     collideCircle this (Fin (fst c)) (Fin (snd c)) (Fin r) =
       Inr (if edge_dist vs c k \<le> r + 1 / 10000
            then Hit k (fpoint (edge_closest vs c k))
                   (fpoint (outward (unit_perp (vs ! k) (vs ! ((k + 1) mod length vs)))
                              (fst (edge_closest vs c k) - pcx, snd (edge_closest vs c k) - pcy)))
                   (Fin (r - edge_dist vs c k))
            else NoHit, this)"
proof -
  have "0 < length vs" using ne by simp
  from fold_best[OF nd this order_refl, of c] obtain k where k: "k < length vs"
    "fold (collide_edge (map fpoint vs) (Fin (fst c)) (Fin (snd c))) [0..<length vs] BestInit =
            BestEdge (Fin (edge_dist vs c k)) (fpoint (edge_closest vs c k)) k
              (fpoint (vs ! k)) (fpoint (vs ! ((k + 1) mod length vs)))"
    "\<forall>j<length vs. edge_dist vs c k \<le> edge_dist vs c j"
    by blast
  let ?a = "vs ! k" and ?b = "vs ! ((k + 1) mod length vs)"
  have ab: "?a \<noteq> ?b" using nondegenerateD[OF nd k(1)] .
  note nf = normal_fin[OF ab]
  have sel: "pt_x (fpoint v) = Fin (fst v)" "pt_y (fpoint v) = Fin (snd v)" for v
    by (simp_all add: fpoint_def)
  show ?thesis
  proof (intro exI[of _ k] conjI k(1) k(3))
    show "collideCircle this (Fin (fst c)) (Fin (snd c)) (Fin r) =
       Inr (if edge_dist vs c k \<le> r + 1 / 10000
            then Hit k (fpoint (edge_closest vs c k))
                   (fpoint (outward (unit_perp ?a ?b)
                              (fst (edge_closest vs c k) - pcx, snd (edge_closest vs c k) - pcy)))
                   (Fin (r - edge_dist vs c k))
            else NoHit, this)"
      unfolding collideCircle_def Let_def verts length_map k(2) Best.case best_dist.simps sel nf centre
      by (simp add: fpoint_def outward_def)
  qed
qed

lemma collideCircle_hit:
  assumes verts: "p_vertices this = map fpoint vs" and nd: "nondegenerate vs"
    and centre: "p_cx this = Fin pcx" "p_cy this = Fin pcy"
    and i: "i < length vs" and d: "edge_dist vs c i \<le> r + 1 / 10000"
  shows "\<exists>k cp nrm d. collideCircle this (Fin (fst c)) (Fin (snd c)) (Fin r)
            = Inr (Hit k cp nrm (Fin (r - d)), this) \<and> d \<le> r + 1 / 10000"
proof -
  have ne: "vs \<noteq> []" using i by auto
  from collideCircle_fin[OF verts nd ne centre, of c r] obtain k where k: "k < length vs"
    "\<forall>j<length vs. edge_dist vs c k \<le> edge_dist vs c j"
    "collideCircle this (Fin (fst c)) (Fin (snd c)) (Fin r) =
       Inr (if edge_dist vs c k \<le> r + 1 / 10000
            then Hit k (fpoint (edge_closest vs c k))
                   (fpoint (outward (unit_perp (vs ! k) (vs ! ((k + 1) mod length vs)))
                              (fst (edge_closest vs c k) - pcx, snd (edge_closest vs c k) - pcy)))
                   (Fin (r - edge_dist vs c k))
            else NoHit, this)"
    by blast
  from k(2) i d have "edge_dist vs c k \<le> r + 1 / 10000" by force
  with k(3) show ?thesis by auto
qed

lemma collideCircle_hit_unit:
  assumes verts: "p_vertices this = map fpoint vs" and nd: "nondegenerate vs"
    and centre: "p_cx this = Fin pcx" "p_cy this = Fin pcy"
    and i: "i < length vs" and d: "edge_dist vs c i \<le> r + 1 / 10000"
  shows "\<exists>k cp nx ny d. collideCircle this (Fin (fst c)) (Fin (snd c)) (Fin r)
            = Inr (Hit k cp \<lparr>pt_x = Fin nx, pt_y = Fin ny\<rparr> (Fin (r - d)), this) \<and>
          nx * nx + ny * ny = 1"
proof -
  have ne: "vs \<noteq> []" using i by auto
  from collideCircle_fin[OF verts nd ne centre, of c r] obtain k where k: "k < length vs"
    "\<forall>j<length vs. edge_dist vs c k \<le> edge_dist vs c j"
    "collideCircle this (Fin (fst c)) (Fin (snd c)) (Fin r) =
       Inr (if edge_dist vs c k \<le> r + 1 / 10000
            then Hit k (fpoint (edge_closest vs c k))
                   (fpoint (outward (unit_perp (vs ! k) (vs ! ((k + 1) mod length vs)))
                              (fst (edge_closest vs c k) - pcx, snd (edge_closest vs c k) - pcy)))
                   (Fin (r - edge_dist vs c k))
            else NoHit, this)"
    by blast
  let ?n = "outward (unit_perp (vs ! k) (vs ! ((k + 1) mod length vs)))
              (fst (edge_closest vs c k) - pcx, snd (edge_closest vs c k) - pcy)"
  have unit: "fst ?n * fst ?n + snd ?n * snd ?n = 1"
    using unit_perp_norm[OF nondegenerateD[OF nd k(1)]] by (simp only: outward_norm)
  from k(2) i d have "edge_dist vs c k \<le> r + 1 / 10000" by force
  with k(3) have "collideCircle this (Fin (fst c)) (Fin (snd c)) (Fin r)
            = Inr (Hit k (fpoint (edge_closest vs c k)) \<lparr>pt_x = Fin (fst ?n), pt_y = Fin (snd ?n)\<rparr>
                     (Fin (r - edge_dist vs c k)), this)"
    by (simp add: fpoint_def)
  with unit show ?thesis by blast
qed

lemma collideCircle_nohit:
  assumes verts: "p_vertices this = map fpoint vs" and nd: "nondegenerate vs"
    and ne: "vs \<noteq> []"
    and centre: "p_cx this = Fin pcx" "p_cy this = Fin pcy"
    and far: "\<forall>i<length vs. r + 1 / 10000 < edge_dist vs c i"
  shows "collideCircle this (Fin (fst c)) (Fin (snd c)) (Fin r) = Inr (NoHit, this)"
proof -
  from collideCircle_fin[OF verts nd ne centre, of c r] obtain k where k: "k < length vs"
    "collideCircle this (Fin (fst c)) (Fin (snd c)) (Fin r) =
       Inr (if edge_dist vs c k \<le> r + 1 / 10000
            then Hit k (fpoint (edge_closest vs c k))
                   (fpoint (outward (unit_perp (vs ! k) (vs ! ((k + 1) mod length vs)))
                              (fst (edge_closest vs c k) - pcx, snd (edge_closest vs c k) - pcy)))
                   (Fin (r - edge_dist vs c k))
            else NoHit, this)"
    by blast
  from far k(1) have "\<not> edge_dist vs c k \<le> r + 1 / 10000" by force
  with k(2) show ?thesis by simp
qed

lemma collideCircle_returns:
  assumes "r \<noteq> PInf"
  shows "\<exists>res. collideCircle this cx cy r = Inr (res, this)"
  using js_le_PInf_plus[OF assms]
  by (auto simp: collideCircle_def Let_def split: Best.splits)

section \<open>Regular polygons\<close>

text \<open>
  Consecutive vertices of a regular polygon of radius other than 0 differ, the closest
  point of an edge is at most as far as its first vertex, and every point of the line
  through an edge projects on the direction of the edge's middle at exactly the apothem:
  a circle inside the inscribed circle, with the margin of the hit test, touches no edge.
\<close>

lemma angle_step_eq:
  fixes a b m k :: real
  assumes "0 < k" and "a * (2 * pi) / k = b * (2 * pi) / k + 2 * pi * m"
  shows "a = b + m * k"
proof -
  have "a * (2 * pi) = b * (2 * pi) + 2 * pi * m * k"
    using assms by (simp add: field_simps)
  then have "(2 * pi) * a = (2 * pi) * (b + m * k)"
    by (simp add: algebra_simps)
  moreover have "2 * pi \<noteq> 0" using pi_gt_zero by simp
  ultimately show ?thesis by (simp only: mult_cancel_left) simp
qed

lemma regular_vertex_neq:
  assumes R: "R \<noteq> 0" and k: "2 \<le> k" and i: "i < k"
  shows "regular_vertex cx cy R rot k i \<noteq> regular_vertex cx cy R rot k ((i + 1) mod k)"
proof
  let ?j = "(i + 1) mod k"
  let ?ti = "rot + real i * (2 * pi) / real k" and ?tj = "rot + real ?j * (2 * pi) / real k"
  assume "regular_vertex cx cy R rot k i = regular_vertex cx cy R rot k ?j"
  then have "sin ?tj = sin ?ti \<and> cos ?tj = cos ?ti"
    using R by (simp add: regular_vertex_def)
  then obtain m :: int where m: "?tj = ?ti + 2 * pi * of_int m"
    unfolding sin_cos_eq_iff by blast
  have kpos: "0 < real k" using k by simp
  from m have "real ?j * (2 * pi) / real k = real i * (2 * pi) / real k + 2 * pi * of_int m"
    by simp
  then have "real ?j = real i + of_int m * real k"
    by (rule angle_step_eq[OF kpos])
  then have "real_of_int (int ?j) = real_of_int (int i + m * int k)" by simp
  then have eq: "int ?j = int i + m * int k" by (simp only: of_int_eq_iff)
  have j: "?j < k" using k by simp
  have "m = 0"
  proof (rule ccontr)
    assume "m \<noteq> 0"
    then have "m \<le> - 1 \<or> 1 \<le> m" by linarith
    then show False
    proof
      assume "m \<le> - 1"
      then have "m * int k \<le> - 1 * int k" by (intro mult_right_mono) simp_all
      with eq i j show False by linarith
    next
      assume "1 \<le> m"
      then have "1 * int k \<le> m * int k" by (intro mult_right_mono) simp_all
      with eq i j show False by linarith
    qed
  qed
  with eq have "?j = i" by simp
  moreover have "?j \<noteq> i"
  proof (cases "i + 1 < k")
    case True
    then show ?thesis by simp
  next
    case False
    with i have "i + 1 = k" by simp
    then show ?thesis using k by simp
  qed
  ultimately show False by simp
qed

lemma regular_nondegenerate:
  assumes "R \<noteq> 0" and "2 \<le> k"
  shows "nondegenerate (regular_vertices cx cy R rot k)"
  unfolding nondegenerate_def regular_vertices_def list_all_iff
proof
  fix i assume "i \<in> set [0..<length (map (regular_vertex cx cy R rot k) [0..<k])]"
  then have i: "i < k" by simp
  have "0 < k" using assms(2) by simp
  then have j: "(i + 1) mod k < k" by (rule mod_less_divisor)
  show "map (regular_vertex cx cy R rot k) [0..<k] ! i \<noteq>
        map (regular_vertex cx cy R rot k) [0..<k] !
          ((i + 1) mod length (map (regular_vertex cx cy R rot k) [0..<k]))"
    using regular_vertex_neq[OF assms i] i j by simp
qed

lemma seg_closest_le_start: "vdist p (seg_closest p a b) \<le> vdist p a"
proof -
  define vx vy wx wy where "vx = fst b - fst a" and "vy = snd b - snd a"
    and "wx = fst p - fst a" and "wy = snd p - snd a"
  define c1 c2 where "c1 = vx * wx + vy * wy" and "c2 = vx * vx + vy * vy"
  define t where "t = max 0 (min 1 (c1 / c2))"
  have sc: "seg_closest p a b = (fst a + vx * t, snd a + vy * t)"
    by (simp add: seg_closest_def Let_def vx_def vy_def wx_def wy_def c1_def c2_def t_def)
  have c2: "0 \<le> c2" by (simp add: c2_def)
  have t0: "0 \<le> t" by (simp add: t_def)
  have key: "t * c2 \<le> c1 \<or> t = 0"
  proof (cases "c2 = 0")
    case True
    then show ?thesis by (simp add: t_def)
  next
    case False
    with c2 have pos: "0 < c2" by simp
    show ?thesis
    proof (cases "c1 \<le> 0")
      case True
      then have "c1 / c2 \<le> 0" using pos by (simp add: divide_le_0_iff)
      then show ?thesis by (simp add: t_def)
    next
      case False
      then have "0 \<le> c1 / c2" using pos by simp
      then have "t \<le> c1 / c2" by (simp add: t_def)
      then have "t * c2 \<le> c1" using pos by (simp add: pos_le_divide_eq)
      then show ?thesis ..
    qed
  qed
  have "t * (t * c2) \<le> t * c1"
    using key t0 by (auto intro: mult_left_mono)
  moreover have "0 \<le> t * c1"
    using key t0 c2 by (auto intro: order_trans[of 0 "t * (t * c2)" "t * c1"] mult_left_mono)
  ultimately have le: "t * t * c2 - 2 * t * c1 \<le> 0" by (simp add: algebra_simps)
  have "(fst p - (fst a + vx * t)) * (fst p - (fst a + vx * t))
        + (snd p - (snd a + vy * t)) * (snd p - (snd a + vy * t))
        = (wx * wx + wy * wy) + (t * t * c2 - 2 * t * c1)"
    by (simp add: wx_def wy_def c1_def c2_def algebra_simps)
  also have "\<dots> \<le> wx * wx + wy * wy" using le by simp
  finally show ?thesis
    unfolding vdist_def sc fst_conv snd_conv wx_def wy_def
    by (rule real_sqrt_le_mono)
qed

lemma edge_dist_le_vertex: "edge_dist vs c i \<le> vdist c (vs ! i)"
  unfolding edge_dist_def edge_closest_def by (rule seg_closest_le_start)

lemma regular_vertex_next:
  assumes "i < k"
  shows "regular_vertex cx cy R rot k ((i + 1) mod k) = regular_vertex cx cy R rot k (i + 1)"
proof (cases "i + 1 < k")
  case True
  then show ?thesis by simp
next
  case False
  with assms have k: "i + 1 = k" by simp
  then have kpos: "0 < k" by simp
  have "rot + real k * (2 * pi) / real k = rot + 2 * pi" using kpos by simp
  then have "regular_vertex cx cy R rot k k = regular_vertex cx cy R rot k 0"
    unfolding regular_vertex_def by (simp only: cos_periodic sin_periodic) simp
  then show ?thesis using k by simp
qed

lemma cauchy_schwarz_unit:
  fixes x y ux uy :: real
  assumes "ux * ux + uy * uy = 1"
  shows "x * ux + y * uy \<le> sqrt (x * x + y * y)"
proof -
  have "(x * ux + y * uy)\<^sup>2 + (x * uy - y * ux)\<^sup>2 = (x * x + y * y) * (ux * ux + uy * uy)"
    by (simp add: power2_eq_square algebra_simps)
  then have "(x * ux + y * uy)\<^sup>2 + (x * uy - y * ux)\<^sup>2 = x * x + y * y"
    using assms by simp
  moreover have "0 \<le> (x * uy - y * ux)\<^sup>2" by simp
  ultimately have "(x * ux + y * uy)\<^sup>2 \<le> x * x + y * y" by linarith
  then show ?thesis by (rule real_le_rsqrt)
qed

lemma edge_projection:
  fixes t rot :: real and i k :: nat
  defines "m \<equiv> rot + (real i + 1 / 2) * (2 * pi) / real k"
  assumes k: "0 < k"
  shows "((fst (regular_vertex cx cy R rot k i)
            + (fst (regular_vertex cx cy R rot k (i + 1)) - fst (regular_vertex cx cy R rot k i)) * t) - cx) * cos m
       + ((snd (regular_vertex cx cy R rot k i)
            + (snd (regular_vertex cx cy R rot k (i + 1)) - snd (regular_vertex cx cy R rot k i)) * t) - cy) * sin m
       = apothem R k"
proof -
  let ?ti = "rot + real i * (2 * pi) / real k" and ?tj = "rot + real (i + 1) * (2 * pi) / real k"
  have d1: "?ti - m = - (pi / real k)"
    using k by (simp add: m_def field_simps)
  have d2: "?tj - m = pi / real k"
    using k by (simp add: m_def field_simps)
  have c1: "cos ?ti * cos m + sin ?ti * sin m = cos (pi / real k)"
    using cos_diff[of ?ti m] d1 by simp
  have c2: "cos ?tj * cos m + sin ?tj * sin m = cos (pi / real k)"
    using cos_diff[of ?tj m] d2 by simp
  have "((cx + R * cos ?ti + (cx + R * cos ?tj - (cx + R * cos ?ti)) * t) - cx) * cos m
        + ((cy + R * sin ?ti + (cy + R * sin ?tj - (cy + R * sin ?ti)) * t) - cy) * sin m
        = R * ((1 - t) * (cos ?ti * cos m + sin ?ti * sin m) + t * (cos ?tj * cos m + sin ?tj * sin m))"
    by (simp add: algebra_simps)
  also have "\<dots> = R * cos (pi / real k)"
    unfolding c1 c2 by (simp add: algebra_simps)
  finally show ?thesis
    unfolding regular_vertex_def apothem_def fst_conv snd_conv .
qed

lemma seg_closest_param:
  "\<exists>t. seg_closest p a b = (fst a + (fst b - fst a) * t, snd a + (snd b - snd a) * t)"
  unfolding seg_closest_def Let_def by blast

lemma regular_edge_dist_ge:
  assumes k: "0 < k" and i: "i < k"
  shows "apothem R k - vdist c (cx, cy) \<le> edge_dist (regular_vertices cx cy R rot k) c i"
proof -
  let ?vs = "regular_vertices cx cy R rot k"
  let ?a = "regular_vertex cx cy R rot k i" and ?b = "regular_vertex cx cy R rot k (i + 1)"
  define m where "m = rot + (real i + 1 / 2) * (2 * pi) / real k"
  have j: "(i + 1) mod k < k" using k by (rule mod_less_divisor)
  have ec: "edge_closest ?vs c i = seg_closest c ?a ?b"
    using i j regular_vertex_next[OF i]
    by (simp add: edge_closest_def regular_vertices_def)
  from seg_closest_param[of c ?a ?b] obtain t where
    t: "seg_closest c ?a ?b = (fst ?a + (fst ?b - fst ?a) * t, snd ?a + (snd ?b - snd ?a) * t)"
    by blast
  define qx qy where "qx = fst ?a + (fst ?b - fst ?a) * t" and "qy = snd ?a + (snd ?b - snd ?a) * t"
  have proj: "(qx - cx) * cos m + (qy - cy) * sin m = apothem R k"
    unfolding qx_def qy_def m_def by (rule edge_projection[OF k])
  have u: "cos m * cos m + sin m * sin m = 1" by simp
  have "(fst c - cx) * cos m + (snd c - cy) * sin m \<le> vdist c (cx, cy)"
    unfolding vdist_def fst_conv snd_conv by (rule cauchy_schwarz_unit[OF u])
  moreover have "(qx - fst c) * cos m + (qy - snd c) * sin m
                 \<le> sqrt ((qx - fst c) * (qx - fst c) + (qy - snd c) * (qy - snd c))"
    by (rule cauchy_schwarz_unit[OF u])
  moreover have "(qx - fst c) * cos m + (qy - snd c) * sin m
        = ((qx - cx) * cos m + (qy - cy) * sin m) - ((fst c - cx) * cos m + (snd c - cy) * sin m)"
    by (simp add: algebra_simps)
  moreover have "sqrt ((qx - fst c) * (qx - fst c) + (qy - snd c) * (qy - snd c))
        = sqrt ((fst c - qx) * (fst c - qx) + (snd c - qy) * (snd c - qy))"
    by (simp add: algebra_simps)
  ultimately have "apothem R k - vdist c (cx, cy)
        \<le> sqrt ((fst c - qx) * (fst c - qx) + (snd c - qy) * (snd c - qy))"
    using proj by linarith
  then show ?thesis
    unfolding edge_dist_def ec t vdist_def fst_conv snd_conv qx_def qy_def .
qed

lemma regular_nohit:
  assumes verts: "p_vertices this = map fpoint (regular_vertices cx cy R rot k)"
    and centre: "p_cx this = Fin cx" "p_cy this = Fin cy"
    and R: "0 < R" and k: "3 \<le> k"
    and inside: "vdist c (cx, cy) + r + 1 / 10000 < apothem R k"
  shows "collideCircle this (Fin (fst c)) (Fin (snd c)) (Fin r) = Inr (NoHit, this)"
proof (rule collideCircle_nohit[OF verts _ _ centre])
  show "nondegenerate (regular_vertices cx cy R rot k)"
    using R k by (intro regular_nondegenerate) simp_all
  show "regular_vertices cx cy R rot k \<noteq> []"
    using k by (simp add: regular_vertices_def)
  show "\<forall>i<length (regular_vertices cx cy R rot k).
          r + 1 / 10000 < edge_dist (regular_vertices cx cy R rot k) c i"
  proof (intro allI impI)
    fix i assume "i < length (regular_vertices cx cy R rot k)"
    then have i: "i < k" by (simp add: regular_vertices_def)
    have "0 < k" using k by simp
    from regular_edge_dist_ge[OF this i, of R c cx cy rot] inside
    show "r + 1 / 10000 < edge_dist (regular_vertices cx cy R rot k) c i" by linarith
  qed
qed

lemma hexagon_top: "regular_vertices 0 0 100 (- (pi / 2)) 6 ! 0 = (0, - 100)"
  by (simp add: regular_vertices_def regular_vertex_def upt_conv_Cons)

lemma apothem_hexagon: "apothem 100 6 = 50 * sqrt 3"
  by (simp add: apothem_def cos_30)

lemma sqrt3_bound: "(17 / 10 :: real) < sqrt 3"
  by (rule real_less_rsqrt) (simp add: power2_eq_square)

text \<open>
  An edge of length zero is never taken by the scan: its closest point has \<open>NaN\<close>
  coordinates, its distance is \<open>NaN\<close>, and \<open>dist < best.dist\<close> is false. A
  polygon of radius 0 has only such edges and is no hit for any finite circle.
\<close>

lemma collide_edge_degenerate:
  assumes "i < length vs" and "vs ! i = vs ! ((i + 1) mod length vs)"
  shows "collide_edge (map fpoint vs) (Fin cx) (Fin cy) i best = best"
proof -
  have "0 < length vs" using assms(1) by (cases vs) auto
  then have j: "(i + 1) mod length vs < length vs" by (rule mod_less_divisor)
  show ?thesis
    using assms j
    by (simp add: collide_edge_def closestPointOnSegment_def fpoint_def Let_def minus_jsnum_def)
qed

lemma fold_degenerate:
  assumes "\<forall>i<length vs. vs ! i = vs ! ((i + 1) mod length vs)" and "m \<le> length vs"
  shows "fold (collide_edge (map fpoint vs) (Fin cx) (Fin cy)) [0..<m] BestInit = BestInit"
  using assms(2)
proof (induction m)
  case 0
  then show ?case by simp
next
  case (Suc m)
  then have "m < length vs" by simp
  with assms(1) have "vs ! m = vs ! ((m + 1) mod length vs)" by simp
  from collide_edge_degenerate[OF \<open>m < length vs\<close> this] Suc show ?case by simp
qed

lemma collideCircle_degenerate:
  assumes "p_vertices this = map fpoint vs"
    and "\<forall>i<length vs. vs ! i = vs ! ((i + 1) mod length vs)"
  shows "collideCircle this (Fin cx) (Fin cy) (Fin r) = Inr (NoHit, this)"
  using fold_degenerate[OF assms(2) order_refl, of cx cy]
  by (simp add: collideCircle_def assms(1) Let_def)

lemma zero_radius_no_hit:
  assumes "consistent p"
    and "p_cx p = Fin cx" "p_cy p = Fin cy" "p_rotation p = Fin rot" "p_radius p = Fin 0"
  shows "collideCircle p (Fin x) (Fin y) (Fin r) = Inr (NoHit, p)"
proof -
  from consistent_regular[OF assms(1,2,3,5,4)] obtain k where
    k: "p_vertices p = map fpoint (regular_vertices cx cy 0 rot k)"
    by blast
  have "\<forall>i<length (regular_vertices cx cy 0 rot k).
          regular_vertices cx cy 0 rot k ! i
            = regular_vertices cx cy 0 rot k ! ((i + 1) mod length (regular_vertices cx cy 0 rot k))"
  proof (intro allI impI)
    fix i assume "i < length (regular_vertices cx cy 0 rot k)"
    then have i: "i < k" by (simp add: regular_vertices_def)
    then have "0 < k" by simp
    then have j: "(i + 1) mod k < k" by (rule mod_less_divisor)
    show "regular_vertices cx cy 0 rot k ! i
            = regular_vertices cx cy 0 rot k ! ((i + 1) mod length (regular_vertices cx cy 0 rot k))"
      using i j by (simp add: regular_vertices_def regular_vertex_def)
  qed
  from collideCircle_degenerate[OF k this] show ?thesis .
qed

section \<open>The nested levels and the driver\<close>

lemma updateInner_result:
  assumes inner: "b_inner b = Some ip"
    and ok: "in_polygonSides ip \<noteq> PInf" "ib_radius (in_ball ip) \<noteq> PInf"
  shows "\<exists>hit ip'. updateInner dt b = Inr (hit, b\<lparr>b_inner := Some ip'\<rparr>) \<and>
     in_polygonSides ip' =
       (if hit then js_min (Fin 20) (in_polygonSides ip + Fin 1) else in_polygonSides ip) \<and>
     ib_radius (in_ball ip') = ib_radius (in_ball ip) \<and>
     in_extra ip' = in_extra ip \<and> in_radius ip' = in_radius ip \<and>
     in_cx ip' = in_cx ip \<and> in_cy ip' = in_cy ip"
proof -
  from Polygon_new_returns[OF ok(1)] obtain innerPoly where
    poly: "Polygon_new (in_cx ip) (in_cy ip) (in_radius ip) (in_polygonSides ip) (Fin pi / Fin 2)
             = Some innerPoly"
    by blast
  define vy where "vy = ib_vy (in_ball ip) + (b_gravity b * Fin 0.5) * dt"
  define x where "x = ib_x (in_ball ip) + ib_vx (in_ball ip) * dt"
  define y where "y = ib_y (in_ball ip) + vy * dt"
  define vx2 where "vx2 = ib_vx (in_ball ip) * Fin 0.999"
  define vy2 where "vy2 = vy * Fin 0.999"
  from collideCircle_returns[OF ok(2), of innerPoly x y]
  obtain res where col: "collideCircle innerPoly x y (ib_radius (in_ball ip)) = Inr (res, innerPoly)"
    by auto
  show ?thesis
  proof (cases res)
    case NoHit
    let ?ip = "ip\<lparr>in_ball := (in_ball ip)\<lparr>ib_x := x, ib_y := y, ib_vx := vx2, ib_vy := vy2\<rparr>\<rparr>"
    have "updateInner dt b = Inr (False, b\<lparr>b_inner := Some ?ip\<rparr>)"
      using inner poly col NoHit
      by (simp add: updateInner_def Let_def vy_def x_def y_def vx2_def vy2_def)
    then show ?thesis
      by (intro exI[of _ False] exI[of _ ?ip]) simp
  next
    case (Hit i cp n pen)
    let ?ip = "ip\<lparr>in_ball := (in_ball ip)
                 \<lparr>ib_x := x + pt_x n * (pen + Fin 0.5),
                  ib_y := y + pt_y n * (pen + Fin 0.5),
                  ib_vx := fst (reflect vx2 vy2 (pt_x n) (pt_y n)) * Fin 0.98,
                  ib_vy := snd (reflect vx2 vy2 (pt_x n) (pt_y n)) * Fin 0.98\<rparr>,
               in_polygonSides := js_min (Fin 20) (in_polygonSides ip + Fin 1)\<rparr>"
    have "updateInner dt b = Inr (True, b\<lparr>b_inner := Some ?ip\<rparr>)"
      using inner poly col Hit
      by (simp add: updateInner_def Let_def vy_def x_def y_def vx2_def vy2_def case_prod_beta)
    then show ?thesis
      by (intro exI[of _ True] exI[of _ ?ip]) simp
  qed
qed

lemma updateInner_hit:
  assumes "b_inner b = Some ip"
    and "Polygon_new (in_cx ip) (in_cy ip) (in_radius ip) (in_polygonSides ip) (Fin pi / Fin 2)
           = Some poly"
    and "collideCircle poly (ib_x (in_ball ip) + ib_vx (in_ball ip) * dt)
           (ib_y (in_ball ip) + (ib_vy (in_ball ip) + (b_gravity b * Fin 0.5) * dt) * dt)
           (ib_radius (in_ball ip)) = Inr (Hit i cp n pen, poly)"
  shows "\<exists>ip'. updateInner dt b = Inr (True, b\<lparr>b_inner := Some ip'\<rparr>) \<and>
     in_polygonSides ip' = js_min (Fin 20) (in_polygonSides ip + Fin 1)"
  using assms
  by (simp add: updateInner_def Let_def case_prod_beta) (rule exI, rule conjI, rule refl, simp)

lemma updateInner_sides:
  assumes inner: "b_inner b = Some ip" and s: "in_polygonSides ip = Fin s" "s \<le> 20"
    and r: "ib_radius (in_ball ip) \<noteq> PInf"
  shows "\<exists>hit ip' s'. updateInner dt b = Inr (hit, b\<lparr>b_inner := Some ip'\<rparr>) \<and>
     in_polygonSides ip' = Fin s' \<and> s' = (if hit then min 20 (s + 1) else s) \<and>
     s \<le> s' \<and> s' \<le> 20 \<and> (hit \<and> s \<le> 19 \<longrightarrow> s' = s + 1) \<and>
     ib_radius (in_ball ip') \<noteq> PInf"
proof -
  have "in_polygonSides ip \<noteq> PInf" using s(1) by simp
  from updateInner_result[OF inner this r, of dt] obtain hit ip' where
    u: "updateInner dt b = Inr (hit, b\<lparr>b_inner := Some ip'\<rparr>)"
       "in_polygonSides ip' =
          (if hit then js_min (Fin 20) (in_polygonSides ip + Fin 1) else in_polygonSides ip)"
       "ib_radius (in_ball ip') = ib_radius (in_ball ip)"
    by (elim exE conjE) (rule that)
  have m: "js_min (Fin 20) (Fin s + Fin 1) = Fin (min 20 (s + 1))"
    by (simp add: min_def)
  show ?thesis
    using u s r m
    by (intro exI[of _ hit] exI[of _ ip'] exI[of _ "if hit then min 20 (s + 1) else s"])
       (simp add: min_def)
qed

lemma updateInner_calls_sides:
  assumes "b_inner b = Some ip" and "in_polygonSides ip = Fin s" and "s \<le> 20"
    and "ib_radius (in_ball ip) \<noteq> PInf"
  shows "\<exists>b' ip' s'. updateInner_calls dts b = Inr b' \<and> b_inner b' = Some ip' \<and>
     in_polygonSides ip' = Fin s' \<and> s \<le> s' \<and> s' \<le> 20"
  using assms
proof (induction dts arbitrary: b ip s)
  case Nil
  then show ?case by simp
next
  case (Cons dt dts)
  from updateInner_sides[OF Cons.prems, of dt] obtain hit ip1 s1 where
    u: "updateInner dt b = Inr (hit, b\<lparr>b_inner := Some ip1\<rparr>)"
       "in_polygonSides ip1 = Fin s1" "s \<le> s1" "s1 \<le> 20" "ib_radius (in_ball ip1) \<noteq> PInf"
    by (elim exE conjE) (rule that)
  have "b_inner (b\<lparr>b_inner := Some ip1\<rparr>) = Some ip1" by simp
  from Cons.IH[OF this u(2,4,5)] obtain b' ip' s' where
    r: "updateInner_calls dts (b\<lparr>b_inner := Some ip1\<rparr>) = Inr b'" "b_inner b' = Some ip'"
       "in_polygonSides ip' = Fin s'" "s1 \<le> s'" "s' \<le> 20"
    by (elim exE conjE) (rule that)
  have "updateInner_calls (dt # dts) b = Inr b'" using u(1) r(1) by simp
  moreover have "s \<le> s'" using u(3) r(4) by simp
  ultimately show ?case using r(2,3,5) by blast
qed

lemma stepExtra_result:
  assumes ok: "ex_polygonSides e \<noteq> PInf" "eb_radius (ex_ball e) \<noteq> PInf"
  shows "\<exists>e'. stepExtra parentBall ip dt e = Inr e' \<and> ex_polygonSides e' \<noteq> PInf \<and>
     eb_radius (ex_ball e') = eb_radius (ex_ball e)"
proof -
  from Polygon_new_returns[OF ok(1)] obtain tinyPoly where
    poly: "Polygon_new (Fin 0) (Fin 0) (ib_radius (in_ball ip) * Fin 0.6) (ex_polygonSides e)
             (Fin pi / Fin 2) = Some tinyPoly"
    by blast
  define vy where "vy = eb_vy (ex_ball e) + (b_gravity parentBall * Fin 0.18) * dt"
  define x where "x = eb_x (ex_ball e) + eb_vx (ex_ball e) * dt"
  define y where "y = eb_y (ex_ball e) + vy * dt"
  from collideCircle_returns[OF ok(2), of tinyPoly x y]
  obtain res where col: "collideCircle tinyPoly x y (eb_radius (ex_ball e)) = Inr (res, tinyPoly)"
    by auto
  show ?thesis
  proof (cases res)
    case NoHit
    then show ?thesis
      using poly col ok(1)
      by (simp add: stepExtra_def Let_def vy_def x_def y_def)
  next
    case (Hit i cp n pen)
    then show ?thesis
      using poly col js_min_not_PInf
      by (simp add: stepExtra_def Let_def vy_def x_def y_def case_prod_beta)
  qed
qed

lemma newExtra_ok:
  assumes "depth \<noteq> PInf" and "ib_radius (in_ball ip) \<noteq> PInf"
  shows "ex_polygonSides (newExtra ip depth rx ry) \<noteq> PInf"
    and "eb_radius (ex_ball (newExtra ip depth rx ry)) \<noteq> PInf"
  using assms
  by (simp_all add: newExtra_def js_max_PInf_iff js_add_PInf_iff js_add_PInf_iff2 js_mult_PInf_iff)

lemma newExtra_fields:
  assumes rx: "0 \<le> rx" "rx < 1" and ry: "0 \<le> ry" "ry < 1"
  shows "\<exists>ux uy.
     ex_polygonSides (newExtra ip depth rx ry) = js_max (Fin 3) (Fin 3 + depth + Fin 1) \<and>
     eb_x (ex_ball (newExtra ip depth rx ry)) = ib_x (in_ball ip) * Fin 0.35 \<and>
     eb_y (ex_ball (newExtra ip depth rx ry)) = ib_y (in_ball ip) * Fin 0.35 \<and>
     eb_vx (ex_ball (newExtra ip depth rx ry)) = Fin ux \<and> - 15 \<le> ux \<and> ux \<le> 15 \<and>
     eb_vy (ex_ball (newExtra ip depth rx ry)) = Fin uy \<and> - 15 \<le> uy \<and> uy \<le> 15 \<and>
     eb_radius (ex_ball (newExtra ip depth rx ry))
       = js_max (Fin 2) (ib_radius (in_ball ip) * Fin 0.35)"
  using assms
  by (intro exI[of _ "(rx - 0.5) * 30"] exI[of _ "(ry - 0.5) * 30"]) (simp add: newExtra_def)

lemma handleRecursiveUpdates_None:
  "b_inner b = None \<Longrightarrow> handleRecursiveUpdates b dt depth rx ry = Inr b"
  by (simp add: handleRecursiveUpdates_def)

lemma handleRecursiveUpdates_result:
  assumes inner: "b_inner b = Some ip"
    and ok: "tiers_ok b" "depth \<noteq> PInf"
  shows "\<exists>hit ip1 ip'. updateInner dt b = Inr (hit, b\<lparr>b_inner := Some ip1\<rparr>) \<and>
     in_extra ip1 = in_extra ip \<and>
     handleRecursiveUpdates b dt depth rx ry = Inr (b\<lparr>b_inner := Some ip'\<rparr>) \<and>
     tiers_ok (b\<lparr>b_inner := Some ip'\<rparr>) \<and>
     (recursion_gate b \<longrightarrow>
        (\<exists>e'. stepExtra (b\<lparr>b_inner := Some ip1\<rparr>) ip1 dt
                 (case in_extra ip1 of None \<Rightarrow> newExtra ip1 depth rx ry | Some e \<Rightarrow> e) = Inr e' \<and>
              ip' = ip1\<lparr>in_extra := Some e'\<rparr>)) \<and>
     (\<not> recursion_gate b \<longrightarrow> ip' = ip1)"
proof -
  have ipok: "in_polygonSides ip \<noteq> PInf" "ib_radius (in_ball ip) \<noteq> PInf"
    using ok(1) inner by (simp_all add: tiers_ok_def)
  from updateInner_result[OF inner ipok, of dt] obtain hit ip1 where
    u: "updateInner dt b = Inr (hit, b\<lparr>b_inner := Some ip1\<rparr>)"
       "in_polygonSides ip1 =
          (if hit then js_min (Fin 20) (in_polygonSides ip + Fin 1) else in_polygonSides ip)"
       "ib_radius (in_ball ip1) = ib_radius (in_ball ip)"
       "in_extra ip1 = in_extra ip"
    by blast
  have s1: "in_polygonSides ip1 \<noteq> PInf"
    using u(2) ipok(1) js_min_not_PInf by (cases hit) simp_all
  have r1: "ib_radius (in_ball ip1) \<noteq> PInf" using u(3) ipok(2) by simp
  let ?e = "case in_extra ip1 of None \<Rightarrow> newExtra ip1 depth rx ry | Some e \<Rightarrow> e"
  have eold: "ex_polygonSides e \<noteq> PInf \<and> eb_radius (ex_ball e) \<noteq> PInf"
    if "in_extra ip1 = Some e" for e
    using that ok(1) inner u(4) by (simp add: tiers_ok_def)
  have eok: "ex_polygonSides ?e \<noteq> PInf" "eb_radius (ex_ball ?e) \<noteq> PInf"
  proof -
    show "ex_polygonSides ?e \<noteq> PInf"
      using newExtra_ok(1)[OF ok(2) r1] eold by (cases "in_extra ip1") simp_all
    show "eb_radius (ex_ball ?e) \<noteq> PInf"
      using newExtra_ok(2)[OF ok(2) r1] eold by (cases "in_extra ip1") simp_all
  qed
  from stepExtra_result[OF eok, of "b\<lparr>b_inner := Some ip1\<rparr>" ip1 dt] obtain e' where
    e': "stepExtra (b\<lparr>b_inner := Some ip1\<rparr>) ip1 dt ?e = Inr e'"
        "ex_polygonSides e' \<noteq> PInf" "eb_radius (ex_ball e') = eb_radius (ex_ball ?e)"
    by blast
  show ?thesis
  proof (cases "recursion_gate b")
    case True
    let ?ip' = "ip1\<lparr>in_extra := Some e'\<rparr>"
    have h: "handleRecursiveUpdates b dt depth rx ry = Inr (b\<lparr>b_inner := Some ?ip'\<rparr>)"
      using inner u(1) e'(1) True
      by (simp add: handleRecursiveUpdates_def recursion_gate_def Let_def)
    have t: "tiers_ok (b\<lparr>b_inner := Some ?ip'\<rparr>)"
      using s1 r1 e'(2,3) eok(2) by (simp add: tiers_ok_def)
    show ?thesis
      using True u(1,4) h t e'(1)
      by (intro exI[of _ hit] exI[of _ ip1] exI[of _ ?ip']) simp
  next
    case False
    have h: "handleRecursiveUpdates b dt depth rx ry = Inr (b\<lparr>b_inner := Some ip1\<rparr>)"
      using inner u(1) False
      by (simp add: handleRecursiveUpdates_def recursion_gate_def)
    have t: "tiers_ok (b\<lparr>b_inner := Some ip1\<rparr>)"
      using s1 r1 eold by (cases "in_extra ip1") (simp_all add: tiers_ok_def)
    show ?thesis
      using False u(1,4) h t
      by (intro exI[of _ hit] exI[of _ ip1] exI[of _ ip1]) simp
  qed
qed

lemma gate_depth_one:
  assumes "b_maxNestedDepth b = Fin 1" and "b_nestedDepth b = Fin d" and "0 \<le> d"
  shows "\<not> recursion_gate b"
  using assms by (simp add: recursion_gate_def)

lemma tiers_ok_cong:
  "b_inner b' = b_inner b \<Longrightarrow> tiers_ok b' = tiers_ok b"
  by (simp add: tiers_ok_def)

lemma handleCollision_result:
  assumes "b_radius b \<noteq> PInf"
  shows "\<exists>collided b'. handleCollisionWithPolygon b p = Inr (collided, b', p) \<and>
     b_radius b' = b_radius b \<and> b_inner b' = b_inner b \<and>
     b_nestedDepth b' = b_nestedDepth b \<and> b_maxNestedDepth b' = b_maxNestedDepth b \<and>
     b_gravity b' = b_gravity b"
proof -
  from collideCircle_returns[OF assms, of p "b_x b" "b_y b"] obtain res where
    col: "collideCircle p (b_x b) (b_y b) (b_radius b) = Inr (res, p)" by blast
  show ?thesis
    using col
    by (cases res) (auto simp: handleCollisionWithPolygon_def Let_def case_prod_beta)
qed

lemma handleCollision_nohit:
  "collideCircle p (b_x b) (b_y b) (b_radius b) = Inr (NoHit, p) \<Longrightarrow>
   handleCollisionWithPolygon b p = Inr (False, b, p)"
  by (simp add: handleCollisionWithPolygon_def)

lemma handleCollision_hit:
  "collideCircle p (b_x b) (b_y b) (b_radius b) = Inr (Hit i cp n pen, p) \<Longrightarrow>
   \<exists>b'. handleCollisionWithPolygon b p = Inr (True, b', p)"
  by (simp add: handleCollisionWithPolygon_def Let_def case_prod_beta)

lemma move_fields [simp]:
  "b_radius (integrate dt (applyGravity dt b)) = b_radius b"
  "b_inner (integrate dt (applyGravity dt b)) = b_inner b"
  "b_nestedDepth (integrate dt (applyGravity dt b)) = b_nestedDepth b"
  "b_maxNestedDepth (integrate dt (applyGravity dt b)) = b_maxNestedDepth b"
  "b_gravity (integrate dt (applyGravity dt b)) = b_gravity b"
  by (simp_all add: integrate_def applyGravity_def Let_def)

lemma recursive_result:
  assumes ok: "tiers_ok b"
  shows "\<exists>b'. handleRecursiveUpdates b dt (Fin 0) rx ry = Inr b' \<and> tiers_ok b' \<and>
     b_radius b' = b_radius b \<and> b_nestedDepth b' = b_nestedDepth b \<and>
     b_maxNestedDepth b' = b_maxNestedDepth b \<and>
     (b_inner b' = None \<longleftrightarrow> b_inner b = None) \<and>
     (\<not> recursion_gate b \<longrightarrow>
        (\<forall>ip'. b_inner b' = Some ip' \<longrightarrow> (\<exists>ip. b_inner b = Some ip \<and> in_extra ip' = in_extra ip)))"
proof (cases "b_inner b")
  case None
  then show ?thesis using ok by (simp add: handleRecursiveUpdates_None)
next
  case (Some ip)
  have d: "Fin 0 \<noteq> PInf" by simp
  from handleRecursiveUpdates_result[OF Some ok d, of dt rx ry] obtain ip1 ip' where
    r: "in_extra ip1 = in_extra ip"
       "handleRecursiveUpdates b dt (Fin 0) rx ry = Inr (b\<lparr>b_inner := Some ip'\<rparr>)"
       "tiers_ok (b\<lparr>b_inner := Some ip'\<rparr>)"
       "\<not> recursion_gate b \<longrightarrow> ip' = ip1"
    by blast
  show ?thesis
    using r Some by (intro exI[of _ "b\<lparr>b_inner := Some ip'\<rparr>"]) auto
qed

lemma update_result:
  assumes w: "w_ball w = Some ball" "w_worldPolygon w = Some p"
    and ok: "consistent p" "b_radius ball \<noteq> PInf" "tiers_ok ball"
    and k: "p_sides p = Fin (real k)"
  shows "\<exists>collided ball1 p' ball'.
     handleCollisionWithPolygon (integrate dt (applyGravity dt ball)) p = Inr (collided, ball1, p) \<and>
     update dt W H rx ry w = Inr (w\<lparr>w_worldPolygon := Some p', w_ball := Some ball'\<rparr>) \<and>
     consistent p' \<and> p_sides p' = Fin (real (if collided then k + 1 else k)) \<and>
     (\<not> collided \<longrightarrow> p' = p) \<and>
     b_radius ball' \<noteq> PInf \<and> tiers_ok ball' \<and>
     b_nestedDepth ball' = b_nestedDepth ball \<and> b_maxNestedDepth ball' = b_maxNestedDepth ball \<and>
     (b_inner ball' = None \<longleftrightarrow> b_inner ball = None) \<and>
     (\<not> recursion_gate ball \<longrightarrow>
        (\<forall>ip'. b_inner ball' = Some ip' \<longrightarrow>
           (\<exists>ip. b_inner ball = Some ip \<and> in_extra ip' = in_extra ip)))"
proof -
  let ?b0 = "integrate dt (applyGravity dt ball)"
  have r0: "b_radius ?b0 \<noteq> PInf" using ok(2) by simp
  from handleCollision_result[OF r0, of p] obtain collided ball1 where
    h: "handleCollisionWithPolygon ?b0 p = Inr (collided, ball1, p)"
       "b_radius ball1 = b_radius ball" "b_inner ball1 = b_inner ball"
       "b_nestedDepth ball1 = b_nestedDepth ball" "b_maxNestedDepth ball1 = b_maxNestedDepth ball"
    by auto
  define ball2 where "ball2 = (if collided
      then ball1\<lparr>b_vx := b_vx ball1 * Fin 0.98, b_vy := b_vy ball1 * Fin 0.98\<rparr> else ball1)"
  define ball3 where "ball3 = ball2\<lparr>b_x := clamp (b_x ball2) (Fin 0) W,
                                     b_y := clamp (b_y ball2) (Fin 0) H\<rparr>"
  have f3: "b_radius ball3 = b_radius ball" "b_inner ball3 = b_inner ball"
       "b_nestedDepth ball3 = b_nestedDepth ball" "b_maxNestedDepth ball3 = b_maxNestedDepth ball"
    using h(2-5) by (simp_all add: ball3_def ball2_def)
  have t3: "tiers_ok ball3" using tiers_ok_cong[OF f3(2)] ok(3) by simp
  have g3: "recursion_gate ball3 = recursion_gate ball"
    using f3(3,4) by (simp add: recursion_gate_def)
  from recursive_result[OF t3, of dt rx ry] obtain ball' where
    b0: "handleRecursiveUpdates ball3 dt (Fin 0) rx ry = Inr ball' \<and> tiers_ok ball' \<and>
     b_radius ball' = b_radius ball3 \<and> b_nestedDepth ball' = b_nestedDepth ball3 \<and>
     b_maxNestedDepth ball' = b_maxNestedDepth ball3 \<and>
     (b_inner ball' = None \<longleftrightarrow> b_inner ball3 = None) \<and>
     (\<not> recursion_gate ball3 \<longrightarrow>
        (\<forall>ip'. b_inner ball' = Some ip' \<longrightarrow>
           (\<exists>ip. b_inner ball3 = Some ip \<and> in_extra ip' = in_extra ip)))" ..
  then have b': "handleRecursiveUpdates ball3 dt (Fin 0) rx ry = Inr ball'" "tiers_ok ball'"
        "b_radius ball' = b_radius ball3" "b_nestedDepth ball' = b_nestedDepth ball3"
        "b_maxNestedDepth ball' = b_maxNestedDepth ball3"
        "b_inner ball' = None \<longleftrightarrow> b_inner ball3 = None"
        "\<not> recursion_gate ball3 \<longrightarrow>
           (\<forall>ip'. b_inner ball' = Some ip' \<longrightarrow>
              (\<exists>ip. b_inner ball3 = Some ip \<and> in_extra ip' = in_extra ip))"
    by simp_all
  show ?thesis
  proof (cases collided)
    case True
    from consistent_grow[OF ok(1) k] obtain p' where
      p': "setSides p (p_sides p + Fin 1) = Some p'" "consistent p'"
          "p_sides p' = Fin (real (k + 1))"
      by blast
    have "update dt W H rx ry w = Inr (w\<lparr>w_worldPolygon := Some p', w_ball := Some ball'\<rparr>)"
      using w h(1) True p'(1) consistent_updateVertices[OF p'(2)] b'(1)
      by (simp add: update_def Let_def ball3_def ball2_def)
    then show ?thesis
      using h(1) True p'(2,3) b' f3 g3 ok(2)
      by (intro exI[of _ True] exI[of _ ball1] exI[of _ p'] exI[of _ ball']) simp
  next
    case False
    have "update dt W H rx ry w = Inr (w\<lparr>w_worldPolygon := Some p, w_ball := Some ball'\<rparr>)"
      using w h(1) False b'(1)
      by (simp add: update_def Let_def ball3_def ball2_def)
    then show ?thesis
      using h(1) False ok(1,2) k b' f3 g3
      by (intro exI[of _ False] exI[of _ ball1] exI[of _ p] exI[of _ ball']) simp
  qed
qed

lemma world_okD:
  assumes "world_ok w"
  shows "\<exists>ball p k. w_ball w = Some ball \<and> w_worldPolygon w = Some p \<and> consistent p \<and>
           b_radius ball \<noteq> PInf \<and> tiers_ok ball \<and> 3 \<le> k \<and> p_sides p = Fin (real k)"
proof -
  from assms obtain ball p where w: "w_ball w = Some ball" "w_worldPolygon w = Some p"
    "consistent p" "b_radius ball \<noteq> PInf" "tiers_ok ball"
    by (auto simp: world_ok_def split: option.splits)
  from consistent_vertices[OF w(3)] obtain k where "3 \<le> k" "p_sides p = Fin (real k)"
    by blast
  with w show ?thesis by blast
qed

lemma update_world_ok:
  assumes ok: "world_ok w" and p: "w_worldPolygon w = Some p" and k: "p_sides p = Fin (real k)"
    and b: "w_ball w = Some ball"
  shows "\<exists>collided ball1 w' p' ball'.
     handleCollisionWithPolygon (integrate dt (applyGravity dt ball)) p = Inr (collided, ball1, p) \<and>
     update dt W H rx ry w = Inr w' \<and> world_ok w' \<and>
     w_worldPolygon w' = Some p' \<and> p_sides p' = Fin (real (if collided then k + 1 else k)) \<and>
     w_ball w' = Some ball' \<and>
     b_nestedDepth ball' = b_nestedDepth ball \<and> b_maxNestedDepth ball' = b_maxNestedDepth ball \<and>
     (\<not> recursion_gate ball \<longrightarrow>
        (\<forall>ip'. b_inner ball' = Some ip' \<longrightarrow>
           (\<exists>ip. b_inner ball = Some ip \<and> in_extra ip' = in_extra ip)))"
proof -
  have w: "consistent p" "b_radius ball \<noteq> PInf" "tiers_ok ball"
    using ok p b by (simp_all add: world_ok_def)
  from update_result[OF b p w k, of dt W H rx ry] obtain collided ball1 p' ball' where
    u0: "handleCollisionWithPolygon (integrate dt (applyGravity dt ball)) p = Inr (collided, ball1, p) \<and>
     update dt W H rx ry w = Inr (w\<lparr>w_worldPolygon := Some p', w_ball := Some ball'\<rparr>) \<and>
     consistent p' \<and> p_sides p' = Fin (real (if collided then k + 1 else k)) \<and>
     (\<not> collided \<longrightarrow> p' = p) \<and>
     b_radius ball' \<noteq> PInf \<and> tiers_ok ball' \<and>
     b_nestedDepth ball' = b_nestedDepth ball \<and> b_maxNestedDepth ball' = b_maxNestedDepth ball \<and>
     (b_inner ball' = None \<longleftrightarrow> b_inner ball = None) \<and>
     (\<not> recursion_gate ball \<longrightarrow>
        (\<forall>ip'. b_inner ball' = Some ip' \<longrightarrow>
           (\<exists>ip. b_inner ball = Some ip \<and> in_extra ip' = in_extra ip)))"
    by (elim exE) (rule that)
  let ?w' = "w\<lparr>w_worldPolygon := Some p', w_ball := Some ball'\<rparr>"
  have "world_ok ?w'" using u0 by (simp add: world_ok_def)
  then show ?thesis
    using u0
    by (intro exI[of _ collided] exI[of _ ball1] exI[of _ ?w'] exI[of _ p'] exI[of _ ball']) simp
qed

lemma run_world_ok:
  assumes "world_ok w" and "w_worldPolygon w = Some p" and "p_sides p = Fin (real k)"
    and "w_ball w = Some ball"
  shows "\<exists>w' p' k' ball'. run ticks w = Inr w' \<and> world_ok w' \<and>
     w_worldPolygon w' = Some p' \<and> p_sides p' = Fin (real k') \<and> k \<le> k' \<and>
     w_ball w' = Some ball' \<and>
     b_nestedDepth ball' = b_nestedDepth ball \<and> b_maxNestedDepth ball' = b_maxNestedDepth ball \<and>
     (\<not> recursion_gate ball \<longrightarrow>
        (\<forall>ip'. b_inner ball' = Some ip' \<longrightarrow>
           (\<exists>ip. b_inner ball = Some ip \<and> in_extra ip' = in_extra ip)))"
  using assms
proof (induction ticks arbitrary: w p k ball)
  case Nil
  then show ?case by auto
next
  case (Cons tick ticks)
  obtain dt W H rx ry where tick: "tick = (dt, W, H, rx, ry)" by (cases tick) auto
  from update_world_ok[OF Cons.prems, of dt W H rx ry] obtain collided w1 p1 ball1 where
    u: "update dt W H rx ry w = Inr w1" "world_ok w1" "w_worldPolygon w1 = Some p1"
       "p_sides p1 = Fin (real (if collided then k + 1 else k))" "w_ball w1 = Some ball1"
       "b_nestedDepth ball1 = b_nestedDepth ball" "b_maxNestedDepth ball1 = b_maxNestedDepth ball"
       "\<not> recursion_gate ball \<longrightarrow>
        (\<forall>ip'. b_inner ball1 = Some ip' \<longrightarrow>
           (\<exists>ip. b_inner ball = Some ip \<and> in_extra ip' = in_extra ip))"
    by (elim exE conjE) (rule that)
  have g: "recursion_gate ball1 = recursion_gate ball"
    using u(6,7) by (simp add: recursion_gate_def)
  from Cons.IH[OF u(2,3,4,5)] obtain w' p' k' ball' where
    r: "run ticks w1 = Inr w'" "world_ok w'" "w_worldPolygon w' = Some p'"
       "p_sides p' = Fin (real k')" "(if collided then k + 1 else k) \<le> k'"
       "w_ball w' = Some ball'"
       "b_nestedDepth ball' = b_nestedDepth ball1" "b_maxNestedDepth ball' = b_maxNestedDepth ball1"
       "\<not> recursion_gate ball1 \<longrightarrow>
        (\<forall>ip'. b_inner ball' = Some ip' \<longrightarrow>
           (\<exists>ip. b_inner ball1 = Some ip \<and> in_extra ip' = in_extra ip))"
    by (elim exE conjE) (rule that)
  have k: "k \<le> k'" using r(5) by (cases collided) simp_all
  have e: "\<not> recursion_gate ball \<longrightarrow>
        (\<forall>ip'. b_inner ball' = Some ip' \<longrightarrow>
           (\<exists>ip. b_inner ball = Some ip \<and> in_extra ip' = in_extra ip))"
    using u(8) r(9) g by fastforce
  have "run (tick # ticks) w = Inr w'" using tick u(1) r(1) by simp
  then show ?case
    using r(2,3,4,6,7,8) k e u(6,7)
    by (intro exI[of _ w'] exI[of _ p'] exI[of _ k'] exI[of _ ball']) simp
qed

text \<open>
  \<open>init\<close> returns, on every finite canvas size, a state that satisfies
  \<open>world_ok\<close>, with a hexagon as world polygon and no tier-2 state.
\<close>

lemma init_world_ok:
  "\<exists>w p ball. init (Fin W) (Fin H) maxNestedDepth rx ry = Inr w \<and> world_ok w \<and>
     w_worldPolygon w = Some p \<and> p_sides p = Fin (real 6) \<and> w_ball w = Some ball \<and>
     b_nestedDepth ball = Fin 0 \<and> b_maxNestedDepth ball = maxNestedDepth \<and>
     (\<forall>ip. b_inner ball = Some ip \<longrightarrow> in_extra ip = None)"
proof -
  define R where "R = min W H * 0.38"
  have t: "nat (max 3 (trunc 6)) = 6" by (simp add: trunc_def)
  have mn: "js_min (Fin W) (Fin H) * Fin 0.38 = Fin R"
    by (simp add: R_def min_def)
  from Polygon_new_regular[of "W / 2" "H / 2" R 6 "- pi / 2"] obtain p where
    p: "Polygon_new (Fin (W / 2)) (Fin (H / 2)) (Fin R) (Fin 6) (Fin (- pi / 2)) = Some p"
       "consistent p" "p_sides p = Fin (real 6)"
    unfolding t by (elim exE conjE) (rule that)
  define ball where "ball = BallSim_new (Fin (W / 2)) (Fin (H / 2) - Fin R * Fin 0.35) (Fin 120) (Fin 30)
       \<lparr>o_radius = Some (js_max (Fin 24) (Fin R * Fin 0.12)), o_gravity = Some (Fin 900),
        o_friction = None, o_nestedDepth = Some (Fin 0),
        o_maxNestedDepth = Some maxNestedDepth\<rparr> rx ry"
  have i: "init (Fin W) (Fin H) maxNestedDepth rx ry
             = Inr \<lparr>w_worldPolygon = Some p, w_ball = Some ball\<rparr>"
    using p(1) unfolding init_def Let_def mn ball_def by simp
  have rad: "b_radius ball = Fin (max 24 (R * 0.12))"
    by (simp add: ball_def BallSim_new_def Let_def js_or_opt_def js_or_def js_nullish_def max_def)
  have b: "tiers_ok ball" "b_nestedDepth ball = Fin 0" "b_maxNestedDepth ball = maxNestedDepth"
    "\<forall>ip. b_inner ball = Some ip \<longrightarrow> in_extra ip = None"
    by (simp_all add: ball_def BallSim_new_def Let_def js_or_opt_def js_or_def js_nullish_def
        tiers_ok_def max_def)
  have "world_ok \<lparr>w_worldPolygon = Some p, w_ball = Some ball\<rparr>"
    using p(2) rad b(1) by (simp add: world_ok_def)
  with i p(3) b show ?thesis by simp
qed

text \<open>
  On a canvas of size 0 by 0 \<open>init\<close> builds a world polygon of radius 0 around a
  body of radius 24 at its center.
\<close>

lemma init_zero_canvas:
  "\<exists>p ball. init (Fin 0) (Fin 0) maxNestedDepth rx ry
               = Inr \<lparr>w_worldPolygon = Some p, w_ball = Some ball\<rparr> \<and>
     Polygon_new (Fin 0) (Fin 0) (Fin 0) (Fin 6) (Fin (- (pi / 2))) = Some p \<and>
     b_x ball = Fin 0 \<and> b_y ball = Fin 0 \<and> b_radius ball = Fin 24"
proof -
  from Polygon_new_regular[of 0 0 0 6 "- (pi / 2)"] obtain p where
    p: "Polygon_new (Fin 0) (Fin 0) (Fin 0) (Fin 6) (Fin (- (pi / 2))) = Some p"
    by (elim exE conjE) (rule that)
  show ?thesis
    using p
    by (simp add: init_def Let_def BallSim_new_def js_or_opt_def js_or_def js_nullish_def)
qed

lemma scene_ball_fields:
  "b_x (integrate (Fin 0) (applyGravity (Fin 0) scene_ball)) = Fin 0"
  "b_y (integrate (Fin 0) (applyGravity (Fin 0) scene_ball)) = Fin (- 95)"
  "b_radius scene_ball = Fin 10"
  "tiers_ok scene_ball"
  by (simp_all add: scene_ball_def BallSim_new_def integrate_def applyGravity_def Let_def
      js_or_opt_def js_or_def js_nullish_def tiers_ok_def)

lemma scene_ball_state:
  "b_x scene_ball = Fin 0" "b_y scene_ball = Fin (- 95)"
  "b_vx scene_ball = Fin 0" "b_vy scene_ball = Fin 50"
  by (simp_all add: scene_ball_def BallSim_new_def Let_def js_or_opt_def js_or_def js_nullish_def)

lemma scene_ball_inner:
  "\<exists>ip. b_inner scene_ball = Some ip \<and> in_extra ip = None"
  "b_nestedDepth scene_ball = Fin 0" "b_maxNestedDepth scene_ball = Fin 3"
  by (simp_all add: scene_ball_def BallSim_new_def Let_def js_or_opt_def js_or_def js_nullish_def)

lemma depth_one_ball_fields:
  "b_radius depth_one_ball = Fin 10" "tiers_ok depth_one_ball"
  "b_nestedDepth depth_one_ball = Fin 0" "b_maxNestedDepth depth_one_ball = Fin 1"
  "\<forall>ip. b_inner depth_one_ball = Some ip \<longrightarrow> in_extra ip = None"
  by (simp_all add: depth_one_ball_def BallSim_new_def Let_def js_or_opt_def js_or_def
      js_nullish_def tiers_ok_def)

lemma tight_ball_inner:
  "b_inner (tight_ball d) =
     Some \<lparr>in_cx = Fin 0, in_cy = Fin 0, in_radius = Fin 0.42,
           in_polygonSides = Fin (max 3 (4 + d)),
           in_ball = \<lparr>ib_x = Fin (- 0.12), ib_y = Fin (- 0.14), ib_vx = Fin 0, ib_vy = Fin 0,
                      ib_radius = Fin 6, ib_gravity = Fin 880\<rparr>,
           in_extra = None\<rparr>"
  by (simp add: tight_ball_def BallSim_new_def Let_def js_or_opt_def js_or_def js_nullish_def
      max_def)

lemma tight_ball_gravity: "b_gravity (tight_ball d) = Fin 800"
  by (simp add: tight_ball_def BallSim_new_def Let_def js_or_opt_def js_or_def js_nullish_def)

lemma tight_ball_hit:
  "\<exists>ip'. updateInner (Fin 0) (tight_ball d) = Inr (True, tight_ball d\<lparr>b_inner := Some ip'\<rparr>) \<and>
     in_polygonSides ip' = js_min (Fin 20) (Fin (max 3 (4 + d)) + Fin 1)"
proof -
  define k where "k = nat (max 3 (trunc (max 3 (4 + d))))"
  let ?vs = "regular_vertices 0 0 0.42 (pi / 2) k"
  have k3: "3 \<le> k" by (simp add: k_def)
  from Polygon_new_regular[of 0 0 "0.42" "max 3 (4 + d)" "pi / 2"] obtain p where
    p: "Polygon_new (Fin 0) (Fin 0) (Fin 0.42) (Fin (max 3 (4 + d))) (Fin (pi / 2)) = Some p"
       "p_cx p = Fin 0" "p_cy p = Fin 0" "p_vertices p = map fpoint ?vs"
    by (elim exE conjE) (rule that; simp add: k_def)
  have len: "0 < length ?vs" using k3 by (simp add: regular_vertices_def)
  have nd: "nondegenerate ?vs" using k3 by (intro regular_nondegenerate) simp_all
  have v0: "?vs ! 0 = (0, 0.42)"
    using k3 by (simp add: regular_vertices_def regular_vertex_def)
  have "edge_dist ?vs (- 0.12, - 0.14) 0 \<le> vdist (- 0.12, - 0.14) (?vs ! 0)"
    by (rule edge_dist_le_vertex)
  also have "\<dots> \<le> 6 + 1 / 10000"
    unfolding v0 vdist_def fst_conv snd_conv
    by (rule real_le_lsqrt) (simp_all add: power2_eq_square)
  finally have "edge_dist ?vs (- 0.12, - 0.14) 0 \<le> 6 + 1 / 10000" .
  from collideCircle_hit[OF p(4) nd p(2,3) len this]
  obtain i cp n pen where
    c: "collideCircle p (Fin (- 0.12)) (Fin (- 0.14)) (Fin 6) = Inr (Hit i cp n pen, p)"
    by auto
  let ?ip = "\<lparr>in_cx = Fin 0, in_cy = Fin 0, in_radius = Fin 0.42,
           in_polygonSides = Fin (max 3 (4 + d)),
           in_ball = \<lparr>ib_x = Fin (- 0.12), ib_y = Fin (- 0.14), ib_vx = Fin 0, ib_vy = Fin 0,
                      ib_radius = Fin 6, ib_gravity = Fin 880\<rparr>,
           in_extra = None\<rparr>"
  have poly: "Polygon_new (in_cx ?ip) (in_cy ?ip) (in_radius ?ip) (in_polygonSides ?ip)
                (Fin pi / Fin 2) = Some p"
    using p(1) by simp
  have col: "collideCircle p (ib_x (in_ball ?ip) + ib_vx (in_ball ?ip) * Fin 0)
           (ib_y (in_ball ?ip)
              + (ib_vy (in_ball ?ip) + (b_gravity (tight_ball d) * Fin 0.5) * Fin 0) * Fin 0)
           (ib_radius (in_ball ?ip)) = Inr (Hit i cp n pen, p)"
    using c by (simp add: tight_ball_gravity)
  from updateInner_hit[OF tight_ball_inner poly col] show ?thesis by simp
qed

section \<open>The claims\<close>

subsection \<open>C1: the degenerate segment\<close>

text \<open>
  C1 says that on a segment whose endpoints coincide \<open>closestPointOnSegment\<close>
  returns the point \<open>a\<close>, with no \<open>NaN\<close>. The code divides zero by zero:
  \<open>t\<close> is \<open>NaN\<close>, neither comparison replaces it, and both coordinates of the
  returned point are \<open>NaN\<close>, for every finite query point and every finite endpoint.
\<close>

theorem closestPointOnSegment_degenerate_NaN:
  "closestPointOnSegment (Fin px) (Fin py) (Fin ax) (Fin ay) (Fin ax) (Fin ay)
     = \<lparr>pt_x = NaN, pt_y = NaN\<rparr>"
  by (simp add: closestPointOnSegment_def minus_jsnum_def)

subsection \<open>C2: the nearest edge\<close>

text \<open>
  C2 says that for every polygon with \<open>n \<ge> 3\<close> vertices \<open>collideCircle\<close> takes
  the minimum \<open>d\<close> over the edges of the distance to the closest point of the edge
  and reports a hit exactly when \<open>d \<le> r + 1/10000\<close>, an edge of length zero
  included. The code does not: on such an edge the closest point has \<open>NaN\<close>
  coordinates (C1), the distance is \<open>NaN\<close> and the edge is never taken. The hexagon
  of radius 0 at \<open>(0, 0)\<close>, the world polygon on a canvas of size 0, has six vertices
  at \<open>(0, 0)\<close>; the circle of radius 24 at \<open>(0, 0)\<close> is at distance 0 from each
  of its edges, and the call returns no hit.
\<close>

theorem collideCircle_zero_length_edges:
  "\<exists>p. Polygon_new (Fin 0) (Fin 0) (Fin 0) (Fin 6) (Fin (- (pi / 2))) = Some p \<and>
     p_vertices p = map fpoint (regular_vertices 0 0 0 (- (pi / 2)) 6) \<and>
     length (regular_vertices 0 0 0 (- (pi / 2)) 6) = 6 \<and>
     min_edge_dist (regular_vertices 0 0 0 (- (pi / 2)) 6) (0, 0) = 0 \<and>
     collideCircle p (Fin 0) (Fin 0) (Fin 24) = Inr (NoHit, p)"
proof -
  let ?vs = "regular_vertices 0 0 0 (- (pi / 2)) 6"
  have t: "nat (max 3 (trunc 6)) = 6" by (simp add: trunc_def)
  from Polygon_new_regular[of 0 0 0 6 "- (pi / 2)"] obtain p where
    p: "Polygon_new (Fin 0) (Fin 0) (Fin 0) (Fin 6) (Fin (- (pi / 2))) = Some p"
       "consistent p" "p_cx p = Fin 0" "p_cy p = Fin 0" "p_radius p = Fin 0"
       "p_rotation p = Fin (- (pi / 2))" "p_vertices p = map fpoint ?vs"
    unfolding t by (elim exE conjE) (rule that)
  have len: "length ?vs = 6" by (simp add: regular_vertices_def)
  have v: "?vs ! i = (0, 0)" if "i < 6" for i
    using that by (simp add: regular_vertices_def regular_vertex_def)
  have d: "edge_dist ?vs (0, 0) i = 0" if "i < 6" for i
  proof -
    have "(i + 1) mod 6 < 6" by simp
    then show ?thesis
      using that v[of i] v[of "(i + 1) mod 6"]
      by (simp add: edge_dist_def edge_closest_def seg_closest_def vdist_def len Let_def)
  qed
  have "min_edge_dist ?vs (0, 0) = edge_dist ?vs (0, 0) 0"
    using d len by (intro min_edge_dist_eq) simp_all
  then have m: "min_edge_dist ?vs (0, 0) = 0" using d[of 0] by simp
  from zero_radius_no_hit[OF p(2,3,4,6,5), of 0 0 24]
  have "collideCircle p (Fin 0) (Fin 0) (Fin 24) = Inr (NoHit, p)" .
  with p(1,7) len m show ?thesis by blast
qed

text \<open>
  Without an edge of length zero the code does what the claim says. For a polygon with
  \<open>n \<ge> 3\<close> finite vertices and no edge of length zero, a finite center and a circle
  of finite center \<open>c\<close> and radius \<open>r > 0\<close>, \<open>collideCircle\<close> returns, leaving
  the polygon as it was; the result is a hit exactly when the minimum \<open>d\<close> over the
  edges of the distance from \<open>c\<close> to the closest point of the edge is at most
  \<open>r + 1/10000\<close>; a hit carries the index of an edge of minimal distance, the closest
  point of that edge as contact, the penetration \<open>r - d\<close> and as normal the unit
  perpendicular \<open>(-dy, dx)\<close> of that edge, flipped when its dot product with contact
  minus center is negative; that normal has length 1 and its dot product with contact
  minus center is not negative.
\<close>

lemma collideCircle_nearest_edge:
  assumes verts: "p_vertices this = map fpoint vs"
    and n: "3 \<le> length vs"
    and nd: "nondegenerate vs"
    and centre: "p_cx this = Fin pcx" "p_cy this = Fin pcy"
    and r: "0 < r"
  shows "\<exists>res. collideCircle this (Fin (fst c)) (Fin (snd c)) (Fin r) = Inr (res, this) \<and>
     (res \<noteq> NoHit \<longleftrightarrow> min_edge_dist vs c \<le> r + 1 / 10000) \<and>
     (\<forall>k cp nrm pen. res = Hit k cp nrm pen \<longrightarrow>
        k < length vs \<and> edge_dist vs c k = min_edge_dist vs c \<and>
        cp = fpoint (edge_closest vs c k) \<and>
        pen = Fin (r - min_edge_dist vs c) \<and>
        nrm = fpoint (outward (unit_perp (vs ! k) (vs ! ((k + 1) mod length vs)))
                       (fst (edge_closest vs c k) - pcx, snd (edge_closest vs c k) - pcy)) \<and>
        (\<exists>nx ny. nrm = fpoint (nx, ny) \<and> nx * nx + ny * ny = 1 \<and>
           0 \<le> (fst (edge_closest vs c k) - pcx) * nx + (snd (edge_closest vs c k) - pcy) * ny))"
proof -
  have ne: "vs \<noteq> []" using n by auto
  from collideCircle_fin[OF verts nd ne centre, of c r] obtain k where k: "k < length vs"
    "\<forall>j<length vs. edge_dist vs c k \<le> edge_dist vs c j"
    "collideCircle this (Fin (fst c)) (Fin (snd c)) (Fin r) =
       Inr (if edge_dist vs c k \<le> r + 1 / 10000
            then Hit k (fpoint (edge_closest vs c k))
                   (fpoint (outward (unit_perp (vs ! k) (vs ! ((k + 1) mod length vs)))
                              (fst (edge_closest vs c k) - pcx, snd (edge_closest vs c k) - pcy)))
                   (Fin (r - edge_dist vs c k))
            else NoHit, this)"
    by blast
  have m: "min_edge_dist vs c = edge_dist vs c k"
    by (rule min_edge_dist_eq[OF k(1,2)])
  let ?t = "(fst (edge_closest vs c k) - pcx, snd (edge_closest vs c k) - pcy)"
  let ?u = "unit_perp (vs ! k) (vs ! ((k + 1) mod length vs))"
  let ?n = "outward ?u ?t"
  have unit: "fst ?n * fst ?n + snd ?n * snd ?n = 1"
    using unit_perp_norm[OF nondegenerateD[OF nd k(1)]] by (simp only: outward_norm)
  have dot: "0 \<le> fst ?t * fst ?n + snd ?t * snd ?n" by (rule outward_dot)
  have ex: "\<exists>nx ny. fpoint ?n = fpoint (nx, ny) \<and> nx * nx + ny * ny = 1 \<and>
           0 \<le> (fst (edge_closest vs c k) - pcx) * nx + (snd (edge_closest vs c k) - pcy) * ny"
    using unit dot by (intro exI[of _ "fst ?n"] exI[of _ "snd ?n"]) simp
  show ?thesis
  proof (cases "edge_dist vs c k \<le> r + 1 / 10000")
    case True
    then show ?thesis using k(1,3) m ex by simp
  next
    case False
    then show ?thesis using k(3) m by simp
  qed
qed

text \<open>
  The hexagon of radius 100 with a vertex at the top and a circle of radius 10 centered 5
  below that vertex: the lemma applies and the result is a hit.
\<close>

lemma collideCircle_nearest_edge_witness:
  "\<exists>p res. Polygon_new (Fin 0) (Fin 0) (Fin 100) (Fin 6) (Fin (- (pi / 2))) = Some p \<and>
     p_vertices p = map fpoint (regular_vertices 0 0 100 (- (pi / 2)) 6) \<and>
     nondegenerate (regular_vertices 0 0 100 (- (pi / 2)) 6) \<and>
     collideCircle p (Fin 0) (Fin (- 95)) (Fin 10) = Inr (res, p) \<and> res \<noteq> NoHit \<and>
     min_edge_dist (regular_vertices 0 0 100 (- (pi / 2)) 6) (0, - 95) \<le> 10 + 1 / 10000"
proof -
  let ?vs = "regular_vertices 0 0 100 (- (pi / 2)) 6"
  have t: "nat (max 3 (trunc 6)) = 6" by (simp add: trunc_def)
  from Polygon_new_regular[of 0 0 100 6 "- (pi / 2)"] obtain p where
    p: "Polygon_new (Fin 0) (Fin 0) (Fin 100) (Fin 6) (Fin (- (pi / 2))) = Some p"
       "p_cx p = Fin 0" "p_cy p = Fin 0" "p_vertices p = map fpoint ?vs"
    unfolding t by blast
  have len: "length ?vs = 6" by (simp add: regular_vertices_def)
  have nd: "nondegenerate ?vs" by (rule regular_nondegenerate) simp_all
  have "edge_dist ?vs (0, - 95) 0 \<le> vdist (0, - 95) (?vs ! 0)"
    by (rule edge_dist_le_vertex)
  also have "\<dots> = 5" unfolding hexagon_top by (simp add: vdist_def)
  finally have "min_edge_dist ?vs (0, - 95) \<le> 5"
    using min_edge_dist_le[of 0 ?vs "(0, - 95)"] len by simp
  then have m: "min_edge_dist ?vs (0, - 95) \<le> 10 + 1 / 10000" by simp
  from collideCircle_nearest_edge[OF p(4) _ nd p(2,3), of 10 "(0, - 95)"] len
  obtain res where "collideCircle p (Fin 0) (Fin (- 95)) (Fin 10) = Inr (res, p)"
    "res \<noteq> NoHit \<longleftrightarrow> min_edge_dist ?vs (0, - 95) \<le> 10 + 1 / 10000"
    by auto
  with p nd m show ?thesis by blast
qed

subsection \<open>C3: the reflection law\<close>

text \<open>
  C3. When \<open>handleCollisionWithPolygon\<close> processes a hit whose normal
  \<open>n = (nx, ny)\<close> has length 1, at a finite velocity \<open>v = (vx, vy)\<close>, the velocity
  \<open>v'\<close> of the reflection step satisfies \<open>v' \<cdot> n = - (v \<cdot> n)\<close>, its component
  perpendicular to \<open>n\<close> is that of \<open>v\<close>, and the velocity the call leaves is
  \<open>v'\<close> times 0.98 on each axis. The equalities are exact in the arithmetic of the
  model.
\<close>

theorem reflection_law:
  assumes col: "collideCircle polygon (b_x this) (b_y this) (b_radius this)
                  = Inr (Hit i cp \<lparr>pt_x = Fin nx, pt_y = Fin ny\<rparr> pen, polygon')"
    and unit: "nx * nx + ny * ny = 1"
    and v: "b_vx this = Fin vx" "b_vy this = Fin vy"
  shows "\<exists>vx' vy' b'. reflect (Fin vx) (Fin vy) (Fin nx) (Fin ny) = (Fin vx', Fin vy') \<and>
     vx' * nx + vy' * ny = - (vx * nx + vy * ny) \<and>
     vx' - (vx' * nx + vy' * ny) * nx = vx - (vx * nx + vy * ny) * nx \<and>
     vy' - (vx' * nx + vy' * ny) * ny = vy - (vx * nx + vy * ny) * ny \<and>
     handleCollisionWithPolygon this polygon = Inr (True, b', polygon') \<and>
     b_vx b' = Fin (vx' * 0.98) \<and> b_vy b' = Fin (vy' * 0.98)"
proof -
  define s where "s = vx * nx + vy * ny"
  define vx' vy' where "vx' = vx - 2 * s * nx" and "vy' = vy - 2 * s * ny"
  have r: "reflect (Fin vx) (Fin vy) (Fin nx) (Fin ny) = (Fin vx', Fin vy')"
    by (simp add: reflect_def Let_def vx'_def vy'_def s_def)
  have "vx' * nx + vy' * ny = s - 2 * s * (nx * nx + ny * ny)"
    by (simp add: vx'_def vy'_def s_def algebra_simps)
  then have dot: "vx' * nx + vy' * ny = - s" using unit by simp
  have tx: "vx' - (vx' * nx + vy' * ny) * nx = vx - s * nx"
    unfolding dot by (simp add: vx'_def algebra_simps)
  have ty: "vy' - (vx' * nx + vy' * ny) * ny = vy - s * ny"
    unfolding dot by (simp add: vy'_def algebra_simps)
  obtain b' where h: "handleCollisionWithPolygon this polygon = Inr (True, b', polygon')"
    "b_vx b' = Fin (vx' * 0.98)" "b_vy b' = Fin (vy' * 0.98)"
    using col v r by (simp add: handleCollisionWithPolygon_def Let_def)
  show ?thesis
    using r dot tx ty h unfolding s_def
    by (intro exI[of _ vx'] exI[of _ vy'] exI[of _ b']) simp
qed

text \<open>
  The body of the scene against the hexagon: the call reports a hit, and the law holds
  for the normal of that hit and the velocity \<open>(0, 50)\<close>.
\<close>

theorem reflection_law_witness:
  "\<exists>p b' nx ny wx wy.
     Polygon_new (Fin 0) (Fin 0) (Fin 100) (Fin 6) (Fin (- (pi / 2))) = Some p \<and>
     handleCollisionWithPolygon scene_ball p = Inr (True, b', p) \<and>
     nx * nx + ny * ny = 1 \<and>
     b_vx b' = Fin (wx * 0.98) \<and> b_vy b' = Fin (wy * 0.98) \<and>
     wx * nx + wy * ny = - (0 * nx + 50 * ny)"
proof -
  let ?vs = "regular_vertices 0 0 100 (- (pi / 2)) 6"
  have t: "nat (max 3 (trunc 6)) = 6" by (simp add: trunc_def)
  from Polygon_new_regular[of 0 0 100 6 "- (pi / 2)"] obtain p where
    p: "Polygon_new (Fin 0) (Fin 0) (Fin 100) (Fin 6) (Fin (- (pi / 2))) = Some p"
       "p_cx p = Fin 0" "p_cy p = Fin 0" "p_vertices p = map fpoint ?vs"
    unfolding t by (elim exE conjE) (rule that)
  have len: "0 < length ?vs" by (simp add: regular_vertices_def)
  have nd: "nondegenerate ?vs" by (rule regular_nondegenerate) simp_all
  have "edge_dist ?vs (0, - 95) 0 \<le> vdist (0, - 95) (?vs ! 0)"
    by (rule edge_dist_le_vertex)
  also have "\<dots> = 5" unfolding hexagon_top by (simp add: vdist_def)
  finally have "edge_dist ?vs (0, - 95) 0 \<le> 10 + 1 / 10000" by simp
  from collideCircle_hit_unit[OF p(4) nd p(2,3) len this]
  obtain k cp nx ny d where
    c: "collideCircle p (Fin 0) (Fin (- 95)) (Fin 10)
          = Inr (Hit k cp \<lparr>pt_x = Fin nx, pt_y = Fin ny\<rparr> (Fin (10 - d)), p)"
       "nx * nx + ny * ny = 1"
    by auto
  from c(1) have col: "collideCircle p (b_x scene_ball) (b_y scene_ball) (b_radius scene_ball)
          = Inr (Hit k cp \<lparr>pt_x = Fin nx, pt_y = Fin ny\<rparr> (Fin (10 - d)), p)"
    by (simp add: scene_ball_state scene_ball_fields)
  from reflection_law[OF col c(2) scene_ball_state(3,4)]
  obtain wx wy b' where
    "wx * nx + wy * ny = - (0 * nx + 50 * ny)"
    "handleCollisionWithPolygon scene_ball p = Inr (True, b', p)"
    "b_vx b' = Fin (wx * 0.98)" "b_vy b' = Fin (wy * 0.98)"
    by (elim exE conjE) (rule that)
  with p(1) c(2) show ?thesis by blast
qed

subsection \<open>C4: the first nested level\<close>

text \<open>
  C4. A body constructed with nested depth \<open>d\<close> and maximum depth \<open>m\<close> (both
  finite), parent radius \<open>R\<close> and gravity \<open>g\<close> as the constructor stores them, and
  random values in \<open>[0, 1)\<close>, has an inner level exactly when \<open>d < m\<close> (none at
  \<open>m = 0\<close> for a depth that is not negative). The inner level has radius
  \<open>0.42 R\<close>, side count \<open>max 3 (4 + d)\<close>, its ball at
  \<open>(-0.12 R, -0.14 R)\<close> with each velocity component in \<open>[-20, 20]\<close>, ball radius
  \<open>max 6 (0.22 R)\<close>, ball gravity \<open>1.1 g\<close>, and no tier-2 state.
\<close>

theorem tier1_activation:
  assumes rx: "0 \<le> rx" "rx < 1" and ry: "0 \<le> ry" "ry < 1"
    and b: "b = BallSim_new x y vx vy
                 \<lparr>o_radius = orad, o_gravity = ograv, o_friction = ofric,
                  o_nestedDepth = Some (Fin d), o_maxNestedDepth = Some (Fin m)\<rparr> rx ry"
    and R: "b_radius b = Fin R" and g: "b_gravity b = Fin g"
  shows "(b_inner b \<noteq> None \<longleftrightarrow> d < m) \<and>
         (0 \<le> d \<and> m = 0 \<longrightarrow> b_inner b = None) \<and>
         (d < m \<longrightarrow>
            (\<exists>ip ux uy. b_inner b = Some ip \<and>
               in_radius ip = Fin (0.42 * R) \<and>
               in_polygonSides ip = Fin (max 3 (4 + d)) \<and>
               ib_x (in_ball ip) = Fin (- 0.12 * R) \<and>
               ib_y (in_ball ip) = Fin (- 0.14 * R) \<and>
               ib_vx (in_ball ip) = Fin ux \<and> - 20 \<le> ux \<and> ux \<le> 20 \<and>
               ib_vy (in_ball ip) = Fin uy \<and> - 20 \<le> uy \<and> uy \<le> 20 \<and>
               ib_radius (in_ball ip) = Fin (max 6 (0.22 * R)) \<and>
               ib_gravity (in_ball ip) = Fin (1.1 * g) \<and>
               in_extra ip = None))"
proof -
  have nd: "b_nestedDepth b = Fin d" "b_maxNestedDepth b = Fin m"
    unfolding b by (simp_all add: BallSim_new_def Let_def js_or_opt_def js_or_def js_nullish_def)
  have inner: "b_inner b =
     (if d < m
      then Some \<lparr>in_cx = Fin 0, in_cy = Fin 0,
                 in_radius = b_radius b * Fin 0.42,
                 in_polygonSides = js_max (Fin 3) (Fin 4 + Fin d),
                 in_ball =
                   \<lparr>ib_x = (- b_radius b) * Fin 0.12,
                    ib_y = (- b_radius b) * Fin 0.14,
                    ib_vx = (Fin rx - Fin 0.5) * Fin 40,
                    ib_vy = (Fin ry - Fin 0.5) * Fin 40,
                    ib_radius = js_max (Fin 6) (b_radius b * Fin 0.22),
                    ib_gravity = b_gravity b * Fin 1.1\<rparr>,
                 in_extra = None\<rparr>
      else None)"
    unfolding b by (simp add: BallSim_new_def Let_def js_or_opt_def js_or_def js_nullish_def)
  have v: "- 20 \<le> (rx - 0.5) * 40" "(rx - 0.5) * 40 \<le> 20"
          "- 20 \<le> (ry - 0.5) * 40" "(ry - 0.5) * 40 \<le> 20"
    using rx ry by simp_all
  show ?thesis
    unfolding inner R g using v
    by (auto simp: max_def)
qed

text \<open>
  The call of the driver on a canvas of 800 by 600: radius 27.36, gravity 900, depth 0
  of 3.
\<close>

theorem tier1_activation_witness:
  "\<exists>ip. b_inner (BallSim_new (Fin 400) (Fin 220.2) (Fin 120) (Fin 30)
                   \<lparr>o_radius = Some (Fin 27.36), o_gravity = Some (Fin 900), o_friction = None,
                    o_nestedDepth = Some (Fin 0), o_maxNestedDepth = Some (Fin 3)\<rparr> (1 / 2) (1 / 4))
          = Some ip \<and>
        in_radius ip = Fin (0.42 * 27.36) \<and> in_polygonSides ip = Fin 4 \<and>
        ib_x (in_ball ip) = Fin (- 0.12 * 27.36) \<and> ib_y (in_ball ip) = Fin (- 0.14 * 27.36) \<and>
        ib_radius (in_ball ip) = Fin 6.0192 \<and> ib_gravity (in_ball ip) = Fin 990 \<and>
        in_extra ip = None"
proof -
  let ?opts = "\<lparr>o_radius = Some (Fin 27.36), o_gravity = Some (Fin 900), o_friction = None,
                 o_nestedDepth = Some (Fin 0), o_maxNestedDepth = Some (Fin 3)\<rparr>"
  let ?b = "BallSim_new (Fin 400) (Fin 220.2) (Fin 120) (Fin 30) ?opts (1 / 2) (1 / 4)"
  have R: "b_radius ?b = Fin 27.36" and g: "b_gravity ?b = Fin 900"
    by (simp_all add: BallSim_new_def Let_def js_or_opt_def js_or_def js_nullish_def)
  have r: "(0::real) \<le> 1 / 2" "(1 / 2 :: real) < 1" "(0::real) \<le> 1 / 4" "(1 / 4 :: real) < 1"
    by simp_all
  from tier1_activation[OF r refl R g, THEN conjunct2, THEN conjunct2]
  show ?thesis by (auto simp: max_def)
qed

subsection \<open>C5: the second nested level\<close>

text \<open>
  C5. For a body whose nested side counts and radii are not infinite, a depth argument
  that is not infinite and random values in \<open>[0, 1)\<close>: without an inner level
  \<open>handleRecursiveUpdates\<close> returns the body unchanged; with an inner level that has no
  tier-2 state the call returns, and the inner level has a tier-2 state afterwards exactly
  when \<open>nestedDepth + 1 < maxNestedDepth\<close>; that state is the result of the tier-2
  step on a new state with side count \<open>max 3 (3 + depth + 1)\<close>, position 0.35 times
  the position of the tier-1 ball (as \<open>updateInner\<close> left it in this call) on each
  axis, each velocity component in \<open>[-15, 15]\<close> and radius
  \<open>max 2 (0.35 * tier-1 ball radius)\<close>. With maximum depth 1 and a nested depth that
  is not negative, every run of driver ticks from a state without tier-2 state returns and
  ends without one.
\<close>

theorem tier2_gating:
  assumes ok: "tiers_ok b" "depth \<noteq> PInf"
    and rx: "0 \<le> rx" "rx < 1" and ry: "0 \<le> ry" "ry < 1"
  shows "(b_inner b = None \<longrightarrow> handleRecursiveUpdates b dt depth rx ry = Inr b) \<and>
     (\<forall>ip. b_inner b = Some ip \<and> in_extra ip = None \<longrightarrow>
        (\<exists>hit ip1 ip'.
           updateInner dt b = Inr (hit, b\<lparr>b_inner := Some ip1\<rparr>) \<and>
           handleRecursiveUpdates b dt depth rx ry = Inr (b\<lparr>b_inner := Some ip'\<rparr>) \<and>
           (in_extra ip' \<noteq> None \<longleftrightarrow> js_lt (b_nestedDepth b + Fin 1) (b_maxNestedDepth b)) \<and>
           (js_lt (b_nestedDepth b + Fin 1) (b_maxNestedDepth b) \<longrightarrow>
              (\<exists>e' ux uy.
                 ex_polygonSides (newExtra ip1 depth rx ry)
                   = js_max (Fin 3) (Fin 3 + depth + Fin 1) \<and>
                 eb_x (ex_ball (newExtra ip1 depth rx ry)) = ib_x (in_ball ip1) * Fin 0.35 \<and>
                 eb_y (ex_ball (newExtra ip1 depth rx ry)) = ib_y (in_ball ip1) * Fin 0.35 \<and>
                 eb_vx (ex_ball (newExtra ip1 depth rx ry)) = Fin ux \<and> - 15 \<le> ux \<and> ux \<le> 15 \<and>
                 eb_vy (ex_ball (newExtra ip1 depth rx ry)) = Fin uy \<and> - 15 \<le> uy \<and> uy \<le> 15 \<and>
                 eb_radius (ex_ball (newExtra ip1 depth rx ry))
                   = js_max (Fin 2) (ib_radius (in_ball ip1) * Fin 0.35) \<and>
                 stepExtra (b\<lparr>b_inner := Some ip1\<rparr>) ip1 dt (newExtra ip1 depth rx ry) = Inr e' \<and>
                 in_extra ip' = Some e')))) \<and>
     (world_ok w \<and> w_ball w = Some b \<and> b_maxNestedDepth b = Fin 1 \<and>
      b_nestedDepth b = Fin d \<and> 0 \<le> d \<and> (\<forall>ip. b_inner b = Some ip \<longrightarrow> in_extra ip = None) \<longrightarrow>
        (\<exists>w' b'. run ticks w = Inr w' \<and> w_ball w' = Some b' \<and>
           (\<forall>ip'. b_inner b' = Some ip' \<longrightarrow> in_extra ip' = None)))"
proof (intro conjI allI impI)
  assume "b_inner b = None"
  then show "handleRecursiveUpdates b dt depth rx ry = Inr b"
    by (rule handleRecursiveUpdates_None)
next
  fix ip assume a: "b_inner b = Some ip \<and> in_extra ip = None"
  then have inner: "b_inner b = Some ip" and fresh: "in_extra ip = None" by simp_all
  from handleRecursiveUpdates_result[OF inner ok, of dt rx ry] obtain hit ip1 ip' where
    r: "updateInner dt b = Inr (hit, b\<lparr>b_inner := Some ip1\<rparr>)"
       "in_extra ip1 = in_extra ip"
       "handleRecursiveUpdates b dt depth rx ry = Inr (b\<lparr>b_inner := Some ip'\<rparr>)"
       "recursion_gate b \<longrightarrow>
        (\<exists>e'. stepExtra (b\<lparr>b_inner := Some ip1\<rparr>) ip1 dt
                 (case in_extra ip1 of None \<Rightarrow> newExtra ip1 depth rx ry | Some e \<Rightarrow> e) = Inr e' \<and>
              ip' = ip1\<lparr>in_extra := Some e'\<rparr>)"
       "\<not> recursion_gate b \<longrightarrow> ip' = ip1"
    by (elim exE conjE) (rule that)
  have e1: "in_extra ip1 = None" using r(2) fresh by simp
  from newExtra_fields[OF rx ry, of ip1 depth] obtain ux uy where
    n: "ex_polygonSides (newExtra ip1 depth rx ry) = js_max (Fin 3) (Fin 3 + depth + Fin 1)"
       "eb_x (ex_ball (newExtra ip1 depth rx ry)) = ib_x (in_ball ip1) * Fin 0.35"
       "eb_y (ex_ball (newExtra ip1 depth rx ry)) = ib_y (in_ball ip1) * Fin 0.35"
       "eb_vx (ex_ball (newExtra ip1 depth rx ry)) = Fin ux" "- 15 \<le> ux" "ux \<le> 15"
       "eb_vy (ex_ball (newExtra ip1 depth rx ry)) = Fin uy" "- 15 \<le> uy" "uy \<le> 15"
       "eb_radius (ex_ball (newExtra ip1 depth rx ry))
          = js_max (Fin 2) (ib_radius (in_ball ip1) * Fin 0.35)"
    by (elim exE conjE) (rule that)
  show "\<exists>hit ip1 ip'.
           updateInner dt b = Inr (hit, b\<lparr>b_inner := Some ip1\<rparr>) \<and>
           handleRecursiveUpdates b dt depth rx ry = Inr (b\<lparr>b_inner := Some ip'\<rparr>) \<and>
           (in_extra ip' \<noteq> None \<longleftrightarrow> js_lt (b_nestedDepth b + Fin 1) (b_maxNestedDepth b)) \<and>
           (js_lt (b_nestedDepth b + Fin 1) (b_maxNestedDepth b) \<longrightarrow>
              (\<exists>e' ux uy.
                 ex_polygonSides (newExtra ip1 depth rx ry)
                   = js_max (Fin 3) (Fin 3 + depth + Fin 1) \<and>
                 eb_x (ex_ball (newExtra ip1 depth rx ry)) = ib_x (in_ball ip1) * Fin 0.35 \<and>
                 eb_y (ex_ball (newExtra ip1 depth rx ry)) = ib_y (in_ball ip1) * Fin 0.35 \<and>
                 eb_vx (ex_ball (newExtra ip1 depth rx ry)) = Fin ux \<and> - 15 \<le> ux \<and> ux \<le> 15 \<and>
                 eb_vy (ex_ball (newExtra ip1 depth rx ry)) = Fin uy \<and> - 15 \<le> uy \<and> uy \<le> 15 \<and>
                 eb_radius (ex_ball (newExtra ip1 depth rx ry))
                   = js_max (Fin 2) (ib_radius (in_ball ip1) * Fin 0.35) \<and>
                 stepExtra (b\<lparr>b_inner := Some ip1\<rparr>) ip1 dt (newExtra ip1 depth rx ry) = Inr e' \<and>
                 in_extra ip' = Some e'))"
  proof (cases "recursion_gate b")
    case True
    with r(4) e1 obtain e' where
      e': "stepExtra (b\<lparr>b_inner := Some ip1\<rparr>) ip1 dt (newExtra ip1 depth rx ry) = Inr e'"
          "ip' = ip1\<lparr>in_extra := Some e'\<rparr>"
      by auto
    have g: "js_lt (b_nestedDepth b + Fin 1) (b_maxNestedDepth b)"
      using True by (simp add: recursion_gate_def)
    show ?thesis
      using r(1,3) g n e'
      by (intro exI[of _ hit] exI[of _ ip1] exI[of _ ip'] conjI impI
            exI[of _ e'] exI[of _ ux] exI[of _ uy]) simp_all
  next
    case False
    then have g: "\<not> js_lt (b_nestedDepth b + Fin 1) (b_maxNestedDepth b)"
      by (simp add: recursion_gate_def)
    from False r(5) have "ip' = ip1" by simp
    then show ?thesis
      using r(1,3) g e1
      by (intro exI[of _ hit] exI[of _ ip1] exI[of _ ip']) simp
  qed
next
  assume a: "world_ok w \<and> w_ball w = Some b \<and> b_maxNestedDepth b = Fin 1 \<and>
      b_nestedDepth b = Fin d \<and> 0 \<le> d \<and> (\<forall>ip. b_inner b = Some ip \<longrightarrow> in_extra ip = None)"
  then have w: "world_ok w" "w_ball w = Some b" and fresh: "\<forall>ip. b_inner b = Some ip \<longrightarrow> in_extra ip = None"
    by simp_all
  have g: "\<not> recursion_gate b" using a gate_depth_one[of b d] by simp
  from world_okD[OF w(1)] obtain p k where pk: "w_worldPolygon w = Some p" "p_sides p = Fin (real k)"
    by blast
  from run_world_ok[OF w(1) pk w(2), of ticks] obtain w' b' where
    r: "run ticks w = Inr w'" "w_ball w' = Some b'"
       "\<not> recursion_gate b \<longrightarrow>
        (\<forall>ip'. b_inner b' = Some ip' \<longrightarrow>
           (\<exists>ip. b_inner b = Some ip \<and> in_extra ip' = in_extra ip))"
    by (elim exE conjE) (rule that)
  have "\<forall>ip'. b_inner b' = Some ip' \<longrightarrow> in_extra ip' = None"
    using r(3) g fresh by fastforce
  with r(1,2) show "\<exists>w' b'. run ticks w = Inr w' \<and> w_ball w' = Some b' \<and>
           (\<forall>ip'. b_inner b' = Some ip' \<longrightarrow> in_extra ip' = None)"
    by blast
qed

text \<open>
  The body of the scene (depth 0 of 3) gets its tier-2 state in one call; the body with
  maximum depth 1 has none after two driver ticks.
\<close>

theorem tier2_gating_witness:
  "tiers_ok scene_ball \<and>
   (\<exists>ip. b_inner scene_ball = Some ip \<and> in_extra ip = None) \<and>
   (\<exists>ip' e'. handleRecursiveUpdates scene_ball (Fin 0.016) (Fin 0) (1 / 2) (1 / 2)
                = Inr (scene_ball\<lparr>b_inner := Some ip'\<rparr>) \<and>
              in_extra ip' = Some e') \<and>
   (\<exists>p w' b'. Polygon_new (Fin 0) (Fin 0) (Fin 100) (Fin 6) (Fin (- (pi / 2))) = Some p \<and>
      world_ok \<lparr>w_worldPolygon = Some p, w_ball = Some depth_one_ball\<rparr> \<and>
      run [(Fin 0.016, Fin 800, Fin 600, 1 / 2, 1 / 2), (Fin 0.016, Fin 800, Fin 600, 1 / 2, 1 / 2)]
        \<lparr>w_worldPolygon = Some p, w_ball = Some depth_one_ball\<rparr> = Inr w' \<and>
      w_ball w' = Some b' \<and>
      (case b_inner b' of None \<Rightarrow> True | Some ip' \<Rightarrow> in_extra ip' = None))"
proof -
  have r: "(0::real) \<le> 1 / 2" "(1 / 2 :: real) < 1" by simp_all
  have d: "Fin 0 \<noteq> PInf" by simp
  from scene_ball_inner(1) obtain ip where ip: "b_inner scene_ball = Some ip \<and> in_extra ip = None" ..
  have g: "js_lt (b_nestedDepth scene_ball + Fin 1) (b_maxNestedDepth scene_ball)"
    by (simp add: scene_ball_inner)
  from tier2_gating[OF scene_ball_fields(4) d r r, of "Fin 0.016",
      THEN conjunct2, THEN conjunct1, rule_format, OF ip]
  obtain ip' where
    h: "handleRecursiveUpdates scene_ball (Fin 0.016) (Fin 0) (1 / 2) (1 / 2)
          = Inr (scene_ball\<lparr>b_inner := Some ip'\<rparr>)"
       "in_extra ip' \<noteq> None \<longleftrightarrow> js_lt (b_nestedDepth scene_ball + Fin 1) (b_maxNestedDepth scene_ball)"
    by (elim exE conjE) (rule that)
  from h(2) g obtain e' where e': "in_extra ip' = Some e'" by auto
  have t: "nat (max 3 (trunc 6)) = 6" by (simp add: trunc_def)
  from Polygon_new_regular[of 0 0 100 6 "- (pi / 2)"] obtain p where
    p: "Polygon_new (Fin 0) (Fin 0) (Fin 100) (Fin 6) (Fin (- (pi / 2))) = Some p"
       "consistent p"
    by (elim exE conjE) (rule that)
  let ?w = "\<lparr>w_worldPolygon = Some p, w_ball = Some depth_one_ball\<rparr>"
  let ?ticks = "[(Fin 0.016, Fin 800, Fin 600, 1 / 2, 1 / 2), (Fin 0.016, Fin 800, Fin 600, 1 / 2, 1 / 2)]"
  have ok: "world_ok ?w"
    using p(2) depth_one_ball_fields(1,2) by (simp add: world_ok_def)
  have pre: "world_ok ?w \<and> w_ball ?w = Some depth_one_ball \<and>
      b_maxNestedDepth depth_one_ball = Fin 1 \<and> b_nestedDepth depth_one_ball = Fin 0 \<and>
      (0::real) \<le> 0 \<and> (\<forall>ip. b_inner depth_one_ball = Some ip \<longrightarrow> in_extra ip = None)"
    using ok depth_one_ball_fields(3,4,5) by simp
  from tier2_gating[OF depth_one_ball_fields(2) d r r, of _ ?w 0 ?ticks,
      THEN conjunct2, THEN conjunct2, rule_format, OF pre]
  obtain w' b' where
    run: "run ?ticks ?w = Inr w'" "w_ball w' = Some b'"
         "\<forall>ip'. b_inner b' = Some ip' \<longrightarrow> in_extra ip' = None"
    by (elim exE conjE) (rule that)
  have "case b_inner b' of None \<Rightarrow> True | Some ip' \<Rightarrow> in_extra ip' = None"
    using run(3) by (cases "b_inner b'") simp_all
  with scene_ball_fields(4) ip h(1) e' p(1) ok run(1,2) show ?thesis by blast
qed

subsection \<open>C6: the side count of the inner polygon\<close>

text \<open>
  C6 says that \<open>updateInner\<close> never decreases the side count of the inner polygon.
  Above 20 it does: a body constructed at nested depth 17 starts its inner polygon with
  21 sides, and the first call that reports a hit stores \<open>min(20, 22) = 20\<close>.
\<close>

theorem inner_side_count_counterexample:
  "\<exists>ip ip'. b_inner (tight_ball 17) = Some ip \<and> in_polygonSides ip = Fin 21 \<and>
     updateInner (Fin 0) (tight_ball 17) = Inr (True, tight_ball 17\<lparr>b_inner := Some ip'\<rparr>) \<and>
     in_polygonSides ip' = Fin 20"
  using tight_ball_hit[of 17] by (simp add: tight_ball_inner)

text \<open>
  C6, amended. For an inner level whose side count \<open>s\<close> is finite and at most 20
  (and whose ball radius is not infinite), \<open>updateInner\<close> returns; the side count
  after the call is \<open>min 20 (s + 1)\<close> when the call reports a hit and \<open>s\<close>
  otherwise, so it never decreases, never exceeds 20, and grows by exactly 1 on a hit
  at \<open>s \<le> 19\<close>; and after every sequence of calls it is between \<open>s\<close> and 20.
\<close>

theorem inner_side_count:
  assumes "b_inner b = Some ip" and "in_polygonSides ip = Fin s" and "s \<le> 20"
    and "ib_radius (in_ball ip) \<noteq> PInf"
  shows "(\<exists>hit ip' s'. updateInner dt b = Inr (hit, b\<lparr>b_inner := Some ip'\<rparr>) \<and>
            in_polygonSides ip' = Fin s' \<and> s' = (if hit then min 20 (s + 1) else s) \<and>
            s \<le> s' \<and> s' \<le> 20 \<and> (hit \<and> s \<le> 19 \<longrightarrow> s' = s + 1)) \<and>
         (\<exists>b' ip' s'. updateInner_calls dts b = Inr b' \<and> b_inner b' = Some ip' \<and>
            in_polygonSides ip' = Fin s' \<and> s \<le> s' \<and> s' \<le> 20)"
proof
  from updateInner_sides[OF assms, of dt]
  show "\<exists>hit ip' s'. updateInner dt b = Inr (hit, b\<lparr>b_inner := Some ip'\<rparr>) \<and>
            in_polygonSides ip' = Fin s' \<and> s' = (if hit then min 20 (s + 1) else s) \<and>
            s \<le> s' \<and> s' \<le> 20 \<and> (hit \<and> s \<le> 19 \<longrightarrow> s' = s + 1)"
    by (elim exE conjE) (intro exI conjI)
  show "\<exists>b' ip' s'. updateInner_calls dts b = Inr b' \<and> b_inner b' = Some ip' \<and>
            in_polygonSides ip' = Fin s' \<and> s \<le> s' \<and> s' \<le> 20"
    by (rule updateInner_calls_sides[OF assms])
qed

text \<open>
  A body of radius 1 at depth 0: the inner polygon has 4 sides, the first call reports a
  hit, and the polygon then has 5.
\<close>

theorem inner_side_count_witness:
  "\<exists>ip ip'. b_inner (tight_ball 0) = Some ip \<and> in_polygonSides ip = Fin 4 \<and>
     ib_radius (in_ball ip) \<noteq> PInf \<and>
     updateInner (Fin 0) (tight_ball 0) = Inr (True, tight_ball 0\<lparr>b_inner := Some ip'\<rparr>) \<and>
     in_polygonSides ip' = Fin 5"
proof -
  let ?ip = "\<lparr>in_cx = Fin 0, in_cy = Fin 0, in_radius = Fin 0.42,
           in_polygonSides = Fin 4,
           in_ball = \<lparr>ib_x = Fin (- 0.12), ib_y = Fin (- 0.14), ib_vx = Fin 0, ib_vy = Fin 0,
                      ib_radius = Fin 6, ib_gravity = Fin 880\<rparr>,
           in_extra = None\<rparr>"
  have inner: "b_inner (tight_ball 0) = Some ?ip" by (simp add: tight_ball_inner)
  have s: "in_polygonSides ?ip = Fin 4" "(4::real) \<le> 20" "ib_radius (in_ball ?ip) \<noteq> PInf"
    by simp_all
  from inner_side_count[OF inner s, of "Fin 0", THEN conjunct1] obtain hit ip' s' where
    u: "updateInner (Fin 0) (tight_ball 0) = Inr (hit, tight_ball 0\<lparr>b_inner := Some ip'\<rparr>)"
       "in_polygonSides ip' = Fin s'" "hit \<and> 4 \<le> (19::real) \<longrightarrow> s' = 4 + 1"
    by (elim exE conjE) (rule that)
  from tight_ball_hit[of 0] u(1) have "hit" by auto
  with u(3) have "s' = 5" by simp
  with u(1,2) \<open>hit\<close> inner show ?thesis by auto
qed

subsection \<open>C7: the representation of a polygon\<close>

text \<open>
  C7. For every finite side-count argument \<open>n\<close> and all values of the other
  arguments, the constructor and \<open>setSides\<close> return a polygon that satisfies the
  invariant, with side count \<open>max 3 (n truncated)\<close> and the other parameters as given
  or as they were; on a polygon that satisfies the invariant \<open>setRadius\<close> and
  \<open>setCenter\<close> return one that satisfies it, with the new radius or center and
  everything else as it was. A polygon that satisfies the invariant has an integer side
  count \<open>k \<ge> 3\<close>, exactly \<open>k\<close> vertices, and vertex \<open>i\<close> at
  \<open>(cx + radius * cos \<theta>, cy + radius * sin \<theta>)\<close> for
  \<open>\<theta> = rotation + i * 2\<pi> / k\<close>.
\<close>

theorem polygon_representation:
  "(\<exists>p. Polygon_new cx cy r (Fin n) rot = Some p \<and> consistent p \<and>
        p_sides p = Fin (of_int (max 3 (trunc n))) \<and>
        p_cx p = cx \<and> p_cy p = cy \<and> p_radius p = r \<and> p_rotation p = rot) \<and>
   (\<exists>p. setSides q (Fin n) = Some p \<and> consistent p \<and>
        p_sides p = Fin (of_int (max 3 (trunc n))) \<and>
        p_cx p = p_cx q \<and> p_cy p = p_cy q \<and> p_radius p = p_radius q \<and>
        p_rotation p = p_rotation q) \<and>
   (consistent q \<longrightarrow>
      (\<exists>p. setRadius q r = Some p \<and> consistent p \<and> p_radius p = r \<and>
           p_sides p = p_sides q \<and> p_cx p = p_cx q \<and> p_cy p = p_cy q \<and>
           p_rotation p = p_rotation q) \<and>
      (\<exists>p. setCenter q x y = Some p \<and> consistent p \<and> p_cx p = x \<and> p_cy p = y \<and>
           p_sides p = p_sides q \<and> p_radius p = p_radius q \<and>
           p_rotation p = p_rotation q)) \<and>
   (\<forall>p. consistent p \<longrightarrow>
      (\<exists>k. 3 \<le> k \<and> p_sides p = Fin (real k) \<and> length (p_vertices p) = k \<and>
           (\<forall>i<k. p_vertices p ! i = spec_vertex p k i)))"
  using Polygon_new_fin setSides_fin setRadius_consistent setCenter_consistent
    consistent_vertices by blast

text \<open>
  A hexagon of radius 100, then \<open>setRadius(50)\<close>: six vertices, radius 50.
\<close>

theorem polygon_representation_witness:
  "\<exists>q p. Polygon_new (Fin 0) (Fin 0) (Fin 100) (Fin 6) (Fin 0) = Some q \<and> consistent q \<and>
     p_sides q = Fin 6 \<and> setRadius q (Fin 50) = Some p \<and> consistent p \<and>
     p_radius p = Fin 50 \<and> p_sides p = Fin 6 \<and> length (p_vertices p) = 6"
proof -
  have t: "max 3 (trunc 6) = 6" by (simp add: trunc_def)
  note c1 = polygon_representation[where cx = "Fin 0" and cy = "Fin 0" and r = "Fin 100"
      and n = 6 and rot = "Fin 0", THEN conjunct1, unfolded t]
  then obtain q where q: "Polygon_new (Fin 0) (Fin 0) (Fin 100) (Fin 6) (Fin 0) = Some q"
    "consistent q" "p_sides q = Fin 6"
    by auto
  note c3 = polygon_representation[where q = q and r = "Fin 50",
      THEN conjunct2, THEN conjunct2, THEN conjunct1, rule_format, OF q(2), THEN conjunct1]
  then obtain p where p: "setRadius q (Fin 50) = Some p" "consistent p" "p_radius p = Fin 50"
    "p_sides p = p_sides q"
    by blast
  note c4 = polygon_representation[THEN conjunct2, THEN conjunct2, THEN conjunct2,
      rule_format, OF p(2)]
  then obtain k where k: "p_sides p = Fin (real k)" "length (p_vertices p) = k"
    by blast
  from k(1) p(4) q(3) have "k = 6" by simp
  with q p k show ?thesis by auto
qed

subsection \<open>C8: the growth of the world polygon\<close>

text \<open>
  C8. From a driver state that satisfies \<open>world_ok\<close>, with a world polygon of
  \<open>k\<close> sides, a tick returns a state that satisfies it again; the world polygon then
  has \<open>k + 1\<close> sides when \<open>handleCollisionWithPolygon\<close> returned true in the
  tick (whatever \<open>k\<close> is: there is no cap) and \<open>k\<close> sides otherwise; and every
  run of ticks returns, with a side count of at least \<open>k\<close>.
\<close>

theorem world_growth:
  assumes "world_ok w" and "w_worldPolygon w = Some p" and "p_sides p = Fin (real k)"
    and "w_ball w = Some ball"
  shows "(\<exists>collided ball1 w' p'.
            handleCollisionWithPolygon (integrate dt (applyGravity dt ball)) p
              = Inr (collided, ball1, p) \<and>
            update dt W H rx ry w = Inr w' \<and> world_ok w' \<and> w_worldPolygon w' = Some p' \<and>
            p_sides p' = Fin (real (if collided then k + 1 else k))) \<and>
         (\<exists>w' p' k'. run ticks w = Inr w' \<and> world_ok w' \<and> w_worldPolygon w' = Some p' \<and>
            p_sides p' = Fin (real k') \<and> k \<le> k')"
proof
  from update_world_ok[OF assms, of dt W H rx ry]
  show "\<exists>collided ball1 w' p'.
            handleCollisionWithPolygon (integrate dt (applyGravity dt ball)) p
              = Inr (collided, ball1, p) \<and>
            update dt W H rx ry w = Inr w' \<and> world_ok w' \<and> w_worldPolygon w' = Some p' \<and>
            p_sides p' = Fin (real (if collided then k + 1 else k))"
    by (elim exE conjE) (intro exI conjI)
  from run_world_ok[OF assms, of ticks]
  show "\<exists>w' p' k'. run ticks w = Inr w' \<and> world_ok w' \<and> w_worldPolygon w' = Some p' \<and>
            p_sides p' = Fin (real k') \<and> k \<le> k'"
    by (elim exE conjE) (intro exI conjI)
qed

text \<open>
  The scene: the body overlaps the top of the hexagon, the tick reports the collision
  and the polygon has 7 sides afterwards.
\<close>

theorem world_growth_witness:
  "\<exists>p w' p'. Polygon_new (Fin 0) (Fin 0) (Fin 100) (Fin 6) (Fin (- (pi / 2))) = Some p \<and>
     world_ok \<lparr>w_worldPolygon = Some p, w_ball = Some scene_ball\<rparr> \<and>
     p_sides p = Fin 6 \<and>
     update (Fin 0) (Fin 800) (Fin 600) (1 / 2) (1 / 2)
       \<lparr>w_worldPolygon = Some p, w_ball = Some scene_ball\<rparr> = Inr w' \<and>
     w_worldPolygon w' = Some p' \<and> p_sides p' = Fin 7"
proof -
  let ?vs = "regular_vertices 0 0 100 (- (pi / 2)) 6"
  let ?b0 = "integrate (Fin 0) (applyGravity (Fin 0) scene_ball)"
  have t: "nat (max 3 (trunc 6)) = 6" by (simp add: trunc_def)
  from Polygon_new_regular[of 0 0 100 6 "- (pi / 2)"] obtain p where
    p: "Polygon_new (Fin 0) (Fin 0) (Fin 100) (Fin 6) (Fin (- (pi / 2))) = Some p"
       "consistent p" "p_cx p = Fin 0" "p_cy p = Fin 0" "p_sides p = Fin (real 6)"
       "p_vertices p = map fpoint ?vs"
    unfolding t by (elim exE conjE) (rule that)
  let ?w = "\<lparr>w_worldPolygon = Some p, w_ball = Some scene_ball\<rparr>"
  have ok: "world_ok ?w"
    using p(2) scene_ball_fields(3,4) by (simp add: world_ok_def)
  have len: "0 < length ?vs" by (simp add: regular_vertices_def)
  have nd: "nondegenerate ?vs" by (rule regular_nondegenerate) simp_all
  have "edge_dist ?vs (0, - 95) 0 \<le> vdist (0, - 95) (?vs ! 0)"
    by (rule edge_dist_le_vertex)
  also have "\<dots> = 5" unfolding hexagon_top by (simp add: vdist_def)
  finally have "edge_dist ?vs (0, - 95) 0 \<le> 10 + 1 / 10000" by simp
  from collideCircle_hit[OF p(6) nd p(3,4) len this]
  obtain i cp n pen where "collideCircle p (Fin 0) (Fin (- 95)) (Fin 10) = Inr (Hit i cp n pen, p)"
    by auto
  then have "collideCircle p (b_x ?b0) (b_y ?b0) (b_radius ?b0) = Inr (Hit i cp n pen, p)"
    by (simp add: scene_ball_fields)
  from handleCollision_hit[OF this] obtain b' where
    hit: "handleCollisionWithPolygon ?b0 p = Inr (True, b', p)" ..
  from world_growth[of ?w p 6 scene_ball "Fin 0" "Fin 800" "Fin 600" "1 / 2" "1 / 2", OF ok _ p(5),
      THEN conjunct1]
  obtain collided ball1 w' p' where
    u: "handleCollisionWithPolygon ?b0 p = Inr (collided, ball1, p)"
       "update (Fin 0) (Fin 800) (Fin 600) (1 / 2) (1 / 2) ?w = Inr w'"
       "w_worldPolygon w' = Some p'"
       "p_sides p' = Fin (real (if collided then 6 + 1 else 6))"
    by auto
  from u(1) hit have "collided" by simp
  with u(4) have "p_sides p' = Fin 7" by simp
  with p(1,5) ok u(2,3) show ?thesis by auto
qed

subsection \<open>C9: a circle inside the polygon\<close>

text \<open>
  C9 says that a circle whose center is inside a regular polygon and whose radius is less
  than the apothem is no hit. In the hexagon of radius 100 (apothem about 86.6) the
  circle of radius 30 centered 80 above the center, 20 below the top vertex, is inside
  the inscribed circle with its center, has a radius below the apothem, and is a hit.
\<close>

theorem inside_below_apothem_counterexample:
  "vdist (0, - 80) (0, 0) < apothem 100 6 \<and> (30 :: real) < apothem 100 6 \<and>
   (\<exists>p k cp nrm pen.
      Polygon_new (Fin 0) (Fin 0) (Fin 100) (Fin 6) (Fin (- (pi / 2))) = Some p \<and>
      collideCircle p (Fin 0) (Fin (- 80)) (Fin 30) = Inr (Hit k cp nrm pen, p))"
proof -
  let ?vs = "regular_vertices 0 0 100 (- (pi / 2)) 6"
  have t: "nat (max 3 (trunc 6)) = 6" by (simp add: trunc_def)
  from Polygon_new_regular[of 0 0 100 6 "- (pi / 2)"] obtain p where
    p: "Polygon_new (Fin 0) (Fin 0) (Fin 100) (Fin 6) (Fin (- (pi / 2))) = Some p"
       "p_cx p = Fin 0" "p_cy p = Fin 0" "p_vertices p = map fpoint ?vs"
    unfolding t by blast
  have len: "0 < length ?vs" by (simp add: regular_vertices_def)
  have nd: "nondegenerate ?vs" by (rule regular_nondegenerate) simp_all
  have "edge_dist ?vs (0, - 80) 0 \<le> vdist (0, - 80) (?vs ! 0)"
    by (rule edge_dist_le_vertex)
  also have "\<dots> = 20" unfolding hexagon_top by (simp add: vdist_def)
  finally have "edge_dist ?vs (0, - 80) 0 \<le> 30 + 1 / 10000" by simp
  from collideCircle_hit[OF p(4) nd p(2,3) len this]
  have hit: "\<exists>k cp nrm pen. collideCircle p (Fin 0) (Fin (- 80)) (Fin 30)
               = Inr (Hit k cp nrm pen, p)"
    by auto
  have "vdist (0, - 80) (0, 0) = 80" by (simp add: vdist_def)
  moreover have "(80 :: real) < 50 * sqrt 3" using sqrt3_bound by simp
  ultimately show ?thesis using hit p(1) by (auto simp: apothem_hexagon)
qed

text \<open>
  C9, amended. For a polygon that satisfies the invariant, with finite center and
  rotation, radius \<open>R > 0\<close> and \<open>k\<close> sides, and a circle with
  \<open>|c - center| + r + 1/10000\<close> less than the apothem \<open>R * cos (\<pi> / k)\<close>,
  \<open>collideCircle\<close> returns no hit.
\<close>

theorem collideCircle_inscribed_no_hit:
  assumes "consistent p"
    and "p_cx p = Fin cx" "p_cy p = Fin cy" "p_rotation p = Fin rot"
    and "p_radius p = Fin R" "0 < R"
    and "p_sides p = Fin (real k)"
    and "vdist c (cx, cy) + r + 1 / 10000 < apothem R k"
  shows "collideCircle p (Fin (fst c)) (Fin (snd c)) (Fin r) = Inr (NoHit, p)"
proof -
  from consistent_regular[OF assms(1,2,3,5,4)] obtain k' where
    k': "3 \<le> k'" "p_sides p = Fin (real k')"
        "p_vertices p = map fpoint (regular_vertices cx cy R rot k')"
    by blast
  from k'(2) assms(7) have "k' = k" by simp
  with k' show ?thesis
    using regular_nohit[OF _ assms(2,3,6) _ assms(8), of rot] by simp
qed

text \<open>
  The hexagon of radius 100 and the circle of radius 10 centered 60 above the center.
\<close>

theorem collideCircle_inscribed_no_hit_witness:
  "\<exists>p. Polygon_new (Fin 0) (Fin 0) (Fin 100) (Fin 6) (Fin (- (pi / 2))) = Some p \<and>
     consistent p \<and> p_sides p = Fin 6 \<and>
     vdist (0, - 60) (0, 0) + 10 + 1 / 10000 < apothem 100 6 \<and>
     collideCircle p (Fin 0) (Fin (- 60)) (Fin 10) = Inr (NoHit, p)"
proof -
  have t: "nat (max 3 (trunc 6)) = 6" by (simp add: trunc_def)
  from Polygon_new_regular[of 0 0 100 6 "- (pi / 2)"] obtain p where
    p: "Polygon_new (Fin 0) (Fin 0) (Fin 100) (Fin 6) (Fin (- (pi / 2))) = Some p"
       "consistent p" "p_cx p = Fin 0" "p_cy p = Fin 0" "p_radius p = Fin 100"
       "p_rotation p = Fin (- (pi / 2))" "p_sides p = Fin (real 6)"
    unfolding t by auto
  have "vdist (0, - 60) (0, 0) = 60" by (simp add: vdist_def)
  then have inside: "vdist (0, - 60) (0, 0) + 10 + 1 / 10000 < apothem 100 6"
    using sqrt3_bound by (simp add: apothem_hexagon)
  from collideCircle_inscribed_no_hit[OF p(2,3,4,6,5) _ p(7) inside]
  have "collideCircle p (Fin 0) (Fin (- 60)) (Fin 10) = Inr (NoHit, p)" by simp
  with p inside show ?thesis by auto
qed

subsection \<open>C10: the collision query leaves the polygon as it is\<close>

text \<open>
  C10. A call of \<open>collideCircle\<close> either throws or returns its result with the
  receiver exactly as it was (center, radius, side count, rotation and vertex list), and
  so does \<open>handleCollisionWithPolygon\<close> with the polygon it is given: the polygon
  grows only by the driver's call of \<open>setSides\<close>. \<open>closestPointOnSegment\<close> is
  static, takes six numbers and has no polygon to change.
\<close>

theorem collideCircle_receiver_unchanged:
  "(collideCircle this cx cy r = Inl TypeError \<or>
      (\<exists>res. collideCircle this cx cy r = Inr (res, this))) \<and>
   (handleCollisionWithPolygon b this = Inl TypeError \<or>
      (\<exists>collided b'. handleCollisionWithPolygon b this = Inr (collided, b', this)))"
proof -
  have c: "collideCircle this cx cy r = Inl TypeError \<or>
      (\<exists>res. collideCircle this cx cy r = Inr (res, this))" for cx cy r
    by (simp add: collideCircle_def Let_def split: Best.splits)
  from c[of "b_x b" "b_y b" "b_radius b"]
  have "handleCollisionWithPolygon b this = Inl TypeError \<or>
      (\<exists>collided b'. handleCollisionWithPolygon b this = Inr (collided, b', this))"
    by (auto simp: handleCollisionWithPolygon_def Let_def split: CollisionResult.splits prod.splits)
  with c show ?thesis by blast
qed

end
